theory Spec2Isabelle
  imports Main
begin

section \<open>Python strings\<close>

text \<open>
  A Python \<open>str\<close> is a sequence of Unicode code points.  The program uses code points
  beyond Latin-1 (the bullet U+2022 and the quotation mark U+201D), so a character is its
  code point, a natural number, and a string is the list of them.  Literals of the source
  are written with \<open>ustr\<close>.
\<close>

type_synonym uchar = nat
type_synonym ustring = "nat list"

definition ustr :: "string \<Rightarrow> ustring" where
  "ustr s = map of_char s"

text \<open>
  Whitespace as \<open>str.strip()\<close>, \<open>str.isspace()\<close> and the class \<open>\s\<close> of a \<open>str\<close>
  pattern see it: TAB..CR, FS..US, SPACE, NEL, NBSP, U+1680, U+2000..U+200A, U+2028, U+2029,
  U+202F, U+205F and U+3000.
\<close>

definition is_space :: "uchar \<Rightarrow> bool" where
  "is_space c = ((9 \<le> c \<and> c \<le> 13) \<or> (28 \<le> c \<and> c \<le> 32) \<or> c = 133 \<or> c = 160
     \<or> c = 5760 \<or> (8192 \<le> c \<and> c \<le> 8202) \<or> c = 8232 \<or> c = 8233 \<or> c = 8239
     \<or> c = 8287 \<or> c = 12288)"

text \<open>\<open>s.lstrip(chars)\<close>, \<open>s.rstrip(chars)\<close>, \<open>s.strip(chars)\<close> for a set of characters.\<close>

definition lstrip_of :: "(uchar \<Rightarrow> bool) \<Rightarrow> ustring \<Rightarrow> ustring" where
  "lstrip_of P s = dropWhile P s"

definition rstrip_of :: "(uchar \<Rightarrow> bool) \<Rightarrow> ustring \<Rightarrow> ustring" where
  "rstrip_of P s = rev (dropWhile P (rev s))"

definition strip_of :: "(uchar \<Rightarrow> bool) \<Rightarrow> ustring \<Rightarrow> ustring" where
  "strip_of P s = rstrip_of P (lstrip_of P s)"

text \<open>\<open>s.strip()\<close> and \<open>s.rstrip()\<close> without argument remove whitespace.\<close>

definition strip :: "ustring \<Rightarrow> ustring" where
  "strip s = strip_of is_space s"

definition rstrip :: "ustring \<Rightarrow> ustring" where
  "rstrip s = rstrip_of is_space s"

text \<open>\<open>s.endswith(t)\<close> and \<open>t in s\<close>.\<close>

definition endswith :: "ustring \<Rightarrow> ustring \<Rightarrow> bool" where
  "endswith s t = (length t \<le> length s \<and> drop (length s - length t) s = t)"

fun startswith :: "ustring \<Rightarrow> ustring \<Rightarrow> bool" where
  "startswith s [] = True"
| "startswith [] (b # t) = False"
| "startswith (a # s) (b # t) = (a = b \<and> startswith s t)"

fun contains :: "ustring \<Rightarrow> ustring \<Rightarrow> bool" where
  "contains [] t = (t = [])"
| "contains (a # s) t = (startswith (a # s) t \<or> contains s t)"

section \<open>The regular expressions of the program\<close>

text \<open>
  Every pattern of the program is a sequence of anchors and of single character classes,
  each taken once, or under a greedy \<open>*\<close> or \<open>+\<close>, and possibly captured as a group.
  \<open>rmatch p n s\<close> is \<open>re\<close>'s backtracking match of the pattern \<open>p\<close> at a position
  with \<open>n\<close> characters before it and \<open>s\<close> from it on: a greedy repetition first takes one
  more character and gives it back when the rest of the pattern then fails.  The result is
  the captured groups, in order, and the input left after the match.

  \<open>^\<close> matches at the start of the string only (no pattern is compiled with a flag),
  \<open>$\<close> at its end or before a newline that ends it, and \<open>.\<close> is every character but
  the newline.
\<close>

datatype quant = Once | Star | Plus

datatype atom = Bol | Eol | Cls "uchar \<Rightarrow> bool" quant bool

fun open_group :: "bool \<Rightarrow> ustring list \<times> ustring \<Rightarrow> ustring list \<times> ustring" where
  "open_group cap (gs, r) = (if cap then [] # gs else gs, r)"

fun grow_group :: "bool \<Rightarrow> uchar \<Rightarrow> ustring list \<times> ustring \<Rightarrow> ustring list \<times> ustring" where
  "grow_group cap c (g # gs, r) = (if cap then (c # g) # gs else g # gs, r)"
| "grow_group cap c ([], r) = ([], r)"

fun rmatch :: "atom list \<Rightarrow> nat \<Rightarrow> ustring \<Rightarrow> (ustring list \<times> ustring) option" where
  "rmatch [] n s = Some ([], s)"
| "rmatch (Bol # p) n s = (if n = 0 then rmatch p n s else None)"
| "rmatch (Eol # p) n s = (if s = [] \<or> s = [10] then rmatch p n s else None)"
| "rmatch (Cls P Once cap # p) n [] = None"
| "rmatch (Cls P Once cap # p) n (c # cs) =
     (if P c then map_option (grow_group cap c \<circ> open_group cap) (rmatch p (Suc n) cs)
      else None)"
| "rmatch (Cls P Star cap # p) n [] = map_option (open_group cap) (rmatch p n [])"
| "rmatch (Cls P Star cap # p) n (c # cs) =
     (if P c then
        (case rmatch (Cls P Star cap # p) (Suc n) cs of
           Some m \<Rightarrow> Some (grow_group cap c m)
         | None \<Rightarrow> map_option (open_group cap) (rmatch p n (c # cs)))
      else map_option (open_group cap) (rmatch p n (c # cs)))"
| "rmatch (Cls P Plus cap # p) n [] = None"
| "rmatch (Cls P Plus cap # p) n (c # cs) =
     (if P c then map_option (grow_group cap c) (rmatch (Cls P Star cap # p) (Suc n) cs)
      else None)"

text \<open>\<open>re.match(p, s)\<close>: the groups of a match at the start of \<open>s\<close>.\<close>

definition re_match :: "atom list \<Rightarrow> ustring \<Rightarrow> ustring list option" where
  "re_match p s = map_option fst (rmatch p 0 s)"

text \<open>
  \<open>re.sub\<close>, \<open>re.split\<close> and \<open>re.findall\<close> scan the string from the left for the next
  match.  The program calls them with patterns that hold a \<open>+\<close> and no group, so a match
  is never empty; the functions below treat a match of no character as no match and do
  not follow \<open>re\<close>'s rules for empty matches.
\<close>

function re_sub :: "atom list \<Rightarrow> ustring \<Rightarrow> nat \<Rightarrow> ustring \<Rightarrow> ustring" where
  "re_sub p repl n [] = []"
| "re_sub p repl n (c # cs) =
     (case rmatch p n (c # cs) of
        None \<Rightarrow> c # re_sub p repl (Suc n) cs
      | Some (gs, r) \<Rightarrow>
          (if length r \<le> length cs
           then repl @ re_sub p repl (n + (Suc (length cs) - length r))
                         (drop (Suc (length cs) - length r) (c # cs))
           else c # re_sub p repl (Suc n) cs))"
  by pat_completeness auto
termination
  by (relation "measure (\<lambda>(p, repl, n, s). length s)") auto

function re_split :: "atom list \<Rightarrow> nat \<Rightarrow> ustring \<Rightarrow> ustring \<Rightarrow> ustring list" where
  "re_split p n piece [] = [piece]"
| "re_split p n piece (c # cs) =
     (case rmatch p n (c # cs) of
        None \<Rightarrow> re_split p (Suc n) (piece @ [c]) cs
      | Some (gs, r) \<Rightarrow>
          (if length r \<le> length cs
           then piece # re_split p (n + (Suc (length cs) - length r)) []
                           (drop (Suc (length cs) - length r) (c # cs))
           else re_split p (Suc n) (piece @ [c]) cs))"
  by pat_completeness auto
termination
  by (relation "measure (\<lambda>(p, n, piece, s). length s)") auto

function re_findall :: "atom list \<Rightarrow> nat \<Rightarrow> ustring \<Rightarrow> ustring list" where
  "re_findall p n [] = []"
| "re_findall p n (c # cs) =
     (case rmatch p n (c # cs) of
        None \<Rightarrow> re_findall p (Suc n) cs
      | Some (gs, r) \<Rightarrow>
          (if length r \<le> length cs
           then take (Suc (length cs) - length r) (c # cs)
                # re_findall p (n + (Suc (length cs) - length r))
                    (drop (Suc (length cs) - length r) (c # cs))
           else re_findall p (Suc n) cs))"
  by pat_completeness auto
termination
  by (relation "measure (\<lambda>(p, n, s). length s)") auto

text \<open>
  What the patterns mean, stated without the search: \<open>accepts p n segs r\<close> holds when the
  atoms of \<open>p\<close>, in order, consume the segments \<open>segs\<close> (one segment for each atom, empty
  for an anchor) starting at offset \<open>n\<close> and leaving \<open>r\<close> unread, and \<open>groups p segs\<close> are
  the segments of the capturing atoms.  The matcher \<open>rmatch\<close> is compared with this reading
  below.
\<close>

fun accepts :: "atom list \<Rightarrow> nat \<Rightarrow> ustring list \<Rightarrow> ustring \<Rightarrow> bool" where
  "accepts [] n [] r = True"
| "accepts (Bol # p) n (seg # segs) r = (seg = [] \<and> n = 0 \<and> accepts p n segs r)"
| "accepts (Eol # p) n (seg # segs) r =
     (seg = [] \<and> (concat segs @ r = [] \<or> concat segs @ r = [10]) \<and> accepts p n segs r)"
| "accepts (Cls P Once cap # p) n (seg # segs) r =
     (length seg = 1 \<and> list_all P seg \<and> accepts p (Suc n) segs r)"
| "accepts (Cls P Star cap # p) n (seg # segs) r =
     (list_all P seg \<and> accepts p (n + length seg) segs r)"
| "accepts (Cls P Plus cap # p) n (seg # segs) r =
     (seg \<noteq> [] \<and> list_all P seg \<and> accepts p (n + length seg) segs r)"
| "accepts p n segs r = False"

fun groups :: "atom list \<Rightarrow> ustring list \<Rightarrow> ustring list" where
  "groups (Cls P q cap # p) (seg # segs) = (if cap then seg # groups p segs else groups p segs)"
| "groups (a # p) (seg # segs) = groups p segs"
| "groups p segs = []"

text \<open>The pattern \<open>\s+\<close> and the call \<open>re.sub(r"\s+", " ", s)\<close>.\<close>

definition ws_plus :: "atom list" where
  "ws_plus = [Cls is_space Plus False]"

definition squeeze_ws :: "ustring \<Rightarrow> ustring" where
  "squeeze_ws s = re_sub ws_plus [32] 0 s"

section \<open>Padding the question list\<close>

text \<open>
  \<^verbatim>\<open>
  def _ensure_15(qs: list[str]) -> list[str]:
      qs = [re.sub(r"\s+", " ", (q or "").strip()) for q in qs if (q or "").strip()]
      if len(qs) > 15:
          qs = qs[:15]
      while len(qs) < 15:
          qs.append("How could this topic affect an everyday situation at home, work, or school?")
      return qs
  \<close>
  The elements are strings, so \<open>q or ""\<close> is \<open>q\<close>.
\<close>

definition fallback_question :: ustring where
  "fallback_question =
     ustr ''How could this topic affect an everyday situation at home, work, or school?''"

function pad_15 :: "ustring list \<Rightarrow> ustring list" where
  "pad_15 qs = (if length qs < 15 then pad_15 (qs @ [fallback_question]) else qs)"
  by pat_completeness auto
termination
  by (relation "measure (\<lambda>qs. 15 - length qs)") auto

declare pad_15.simps [simp del]

definition ensure_15 :: "ustring list \<Rightarrow> ustring list" where
  "ensure_15 qs =
     (let qs1 = map (\<lambda>q. squeeze_ws (strip q)) (filter (\<lambda>q. strip q \<noteq> []) qs);
          qs2 = (if length qs1 > 15 then take 15 qs1 else qs1)
      in pad_15 qs2)"

text \<open>
  What the claim calls whitespace-normalized: no whitespace at either end, and every
  whitespace character is a single SPACE between two other characters.
\<close>

fun single_spaced :: "ustring \<Rightarrow> bool" where
  "single_spaced [] = True"
| "single_spaced (c # cs) =
     (if is_space c then c = 32 \<and> cs \<noteq> [] \<and> \<not> is_space (hd cs) \<and> single_spaced cs
      else single_spaced cs)"

definition ws_normal :: "ustring \<Rightarrow> bool" where
  "ws_normal s = ((s = [] \<or> \<not> is_space (hd s)) \<and> single_spaced s)"

text \<open>
  The same in other words: the words of a string are its maximal runs of characters that
  are not whitespace (\<open>s.split()\<close>), and the normalized string is its words with one
  space between them (\<open>" ".join(s.split())\<close>).
\<close>

fun words_from :: "ustring \<Rightarrow> ustring \<Rightarrow> ustring list" where
  "words_from w [] = (if w = [] then [] else [w])"
| "words_from w (c # cs) =
     (if is_space c then (if w = [] then words_from [] cs else w # words_from [] cs)
      else words_from (w @ [c]) cs)"

definition words_of :: "ustring \<Rightarrow> ustring list" where
  "words_of s = words_from [] s"

fun join_spaced :: "ustring list \<Rightarrow> ustring" where
  "join_spaced [] = []"
| "join_spaced [w] = w"
| "join_spaced (w # v # vs) = w @ 32 # join_spaced (v # vs)"

section \<open>The Unicode tables of the interpreter\<close>

text \<open>
  Two tables of the Python runtime are not part of the repository and are parameters of
  the model: which characters beyond ASCII are decimal digits (the class \<open>\d\<close> of a
  \<open>str\<close> pattern, and the digits \<open>int()\<close> reads) with their values, and the mapping
  \<open>str.lower()\<close>.  A third parameter is the text of the \<open>ValueError\<close> that \<open>int()\<close>
  raises for a string of \<open>n\<close> digits when \<open>n\<close> is above the limit of the interpreter; the
  releases of CPython word it differently.  \<open>ascii_ucd\<close> is the instance that knows
  ASCII only; its error text is cut short.
\<close>

record ucd =
  decimal :: "uchar \<Rightarrow> nat option"
  lower :: "ustring \<Rightarrow> ustring"
  int_error :: "nat \<Rightarrow> ustring"

definition digit_value :: "ucd \<Rightarrow> uchar \<Rightarrow> nat option" where
  "digit_value U c =
     (if c < 128 then (if 48 \<le> c \<and> c \<le> 57 then Some (c - 48) else None) else decimal U c)"

definition is_digit :: "ucd \<Rightarrow> uchar \<Rightarrow> bool" where
  "is_digit U c = (digit_value U c \<noteq> None)"

definition ascii_lower :: "ustring \<Rightarrow> ustring" where
  "ascii_lower s = map (\<lambda>c. if 65 \<le> c \<and> c \<le> 90 then c + 32 else c) s"

definition ascii_ucd :: ucd where
  "ascii_ucd =
     \<lparr> decimal = (\<lambda>c. None), lower = ascii_lower,
       int_error = (\<lambda>n. ustr ''Exceeds the limit (4300 digits) for integer string conversion'') \<rparr>"

section \<open>Parsing the model's answer\<close>

text \<open>
  \<open>str.splitlines()\<close>: a line ends at LF, VT, FF, CR, CR LF, FS, GS, RS, NEL, U+2028 or
  U+2029; the boundary is dropped, and no empty line follows a final boundary.
\<close>

definition is_linebreak :: "uchar \<Rightarrow> bool" where
  "is_linebreak c = ((10 \<le> c \<and> c \<le> 13) \<or> (28 \<le> c \<and> c \<le> 30) \<or> c = 133
     \<or> c = 8232 \<or> c = 8233)"

fun splitlines_from :: "ustring \<Rightarrow> ustring \<Rightarrow> ustring list" where
  "splitlines_from line [] = (if line = [] then [] else [line])"
| "splitlines_from line [c] = (if is_linebreak c then [line] else [line @ [c]])"
| "splitlines_from line (c # d # cs) =
     (if c = 13 \<and> d = 10 then line # splitlines_from [] cs
      else if is_linebreak c then line # splitlines_from [] (d # cs)
      else splitlines_from (line @ [c]) (d # cs))"

definition splitlines :: "ustring \<Rightarrow> ustring list" where
  "splitlines s = splitlines_from [] s"

text \<open>
  The three patterns of \<open>parse_numbered_questions\<close>:
  \<^verbatim>\<open>^\s*(\d+)[\.\)]\s+(.*)\?$\<close>, \<^verbatim>\<open>^[\-\*\u2022]\s+(.*)\?$\<close> and
  \<^verbatim>\<open>\s*\d+[\.\)]\s+\<close>.
\<close>

definition dot_or_rparen :: "uchar \<Rightarrow> bool" where
  "dot_or_rparen c = (c = 46 \<or> c = 41)"

definition bullet_char :: "uchar \<Rightarrow> bool" where
  "bullet_char c = (c = 45 \<or> c = 42 \<or> c = 8226)"

definition not_newline :: "uchar \<Rightarrow> bool" where
  "not_newline c = (c \<noteq> 10)"

definition qmark :: "uchar \<Rightarrow> bool" where
  "qmark c = (c = 63)"

definition numbered_line :: "ucd \<Rightarrow> atom list" where
  "numbered_line U =
     [Bol, Cls is_space Star False, Cls (is_digit U) Plus True, Cls dot_or_rparen Once False,
      Cls is_space Plus False, Cls not_newline Star True, Cls qmark Once False, Eol]"

definition bulleted_line :: "atom list" where
  "bulleted_line =
     [Bol, Cls bullet_char Once False, Cls is_space Plus False, Cls not_newline Star True,
      Cls qmark Once False, Eol]"

definition number_marker :: "ucd \<Rightarrow> atom list" where
  "number_marker U =
     [Cls is_space Star False, Cls (is_digit U) Plus False, Cls dot_or_rparen Once False,
      Cls is_space Plus False]"

text \<open>
  The two shapes of a line that the first loop of \<open>parse_numbered_questions\<close> looks for,
  read off the two patterns: digits, a dot or a closing parenthesis, white space, a body
  and a question mark; or a bullet, white space, a body and a question mark.
\<close>

definition numbered_question :: "ucd \<Rightarrow> ustring \<Rightarrow> ustring \<Rightarrow> bool" where
  "numbered_question U s body =
     (\<exists>ds sep ws. ds \<noteq> [] \<and> list_all (is_digit U) ds \<and> dot_or_rparen sep
        \<and> ws \<noteq> [] \<and> list_all is_space ws \<and> s = ds @ [sep] @ ws @ body @ [63])"

definition bulleted_question :: "ustring \<Rightarrow> ustring \<Rightarrow> bool" where
  "bulleted_question s body =
     (\<exists>b ws. bullet_char b \<and> ws \<noteq> [] \<and> list_all is_space ws \<and> s = b # ws @ body @ [63])"

text \<open>
  \<^verbatim>\<open>
  def parse_numbered_questions(text, max_items=15):
      out = []
      for line in (text or "").splitlines():
          s = line.strip()
          m = re.match(r'^\s*(\d+)[\.\)]\s+(.*)\?$', s)
          if m: out.append(m.group(2).strip() + "?"); continue
          m2 = re.match(r'^[\-\*\u2022]\s+(.*)\?$', s)
          if m2: out.append(m2.group(1).strip() + "?")
      if not out:
          parts = re.split(r'\s*\d+[\.\)]\s+', text or "")
          for c in parts:
              c = c.strip()
              if c.endswith("?"): out.append(c)
      clean, seen = [], set()
      for q in out[:max_items]:
          q = re.sub(r"\s+", " ", q).strip().strip('"[U+201D]').rstrip()
          if not q.endswith("?"): q = q.rstrip(".! ") + "?"
          if q.lower() in seen: continue
          seen.add(q.lower()); clean.append(q)
      return clean
  \<close>
  (\<open>[U+201D]\<close> stands for the right double quotation mark of the source.)
\<close>

text \<open>One turn of the first loop: what the line appends to \<open>out\<close>, if anything.\<close>

definition line_item :: "ucd \<Rightarrow> ustring \<Rightarrow> ustring option" where
  "line_item U line =
     (let s = strip line in
      case re_match (numbered_line U) s of
        Some [g1, g2] \<Rightarrow> Some (strip g2 @ [63])
      | Some _ \<Rightarrow> None
      | None \<Rightarrow>
          (case re_match bulleted_line s of
             Some [g1] \<Rightarrow> Some (strip g1 @ [63])
           | _ \<Rightarrow> None))"

fun scan_lines :: "ucd \<Rightarrow> ustring list \<Rightarrow> ustring list \<Rightarrow> ustring list" where
  "scan_lines U [] out = out"
| "scan_lines U (line # ls) out =
     (case line_item U line of
        Some q \<Rightarrow> scan_lines U ls (out @ [q])
      | None \<Rightarrow> scan_lines U ls out)"

text \<open>The second loop, over the parts between the number markers.\<close>

fun scan_parts :: "ustring list \<Rightarrow> ustring list \<Rightarrow> ustring list" where
  "scan_parts [] out = out"
| "scan_parts (c # cs) out =
     (if endswith (strip c) [63] then scan_parts cs (out @ [strip c]) else scan_parts cs out)"

definition candidates :: "ucd \<Rightarrow> ustring \<Rightarrow> ustring list" where
  "candidates U text =
     (let out = scan_lines U (splitlines text) []
      in if out = [] then scan_parts (re_split (number_marker U) 0 [] text) [] else out)"

text \<open>The slice \<open>xs[:n]\<close>: a negative \<open>n\<close> counts from the end.\<close>

definition slice_to :: "int \<Rightarrow> 'a list \<Rightarrow> 'a list" where
  "slice_to n xs = (if 0 \<le> n then take (nat n) xs else take (length xs - nat (- n)) xs)"

definition quote_char :: "uchar \<Rightarrow> bool" where
  "quote_char c = (c = 34 \<or> c = 8221)"

definition stop_char :: "uchar \<Rightarrow> bool" where
  "stop_char c = (c = 46 \<or> c = 33 \<or> c = 32)"

text \<open>The first two statements of the last loop's body.\<close>

definition tidy :: "ustring \<Rightarrow> ustring" where
  "tidy q =
     (let q1 = rstrip (strip_of quote_char (strip (squeeze_ws q)))
      in if endswith q1 [63] then q1 else rstrip_of stop_char q1 @ [63])"

fun dedup :: "ucd \<Rightarrow> ustring list \<Rightarrow> ustring list \<Rightarrow> ustring set \<Rightarrow> ustring list" where
  "dedup U [] clean seen = clean"
| "dedup U (q # qs) clean seen =
     (if lower U (tidy q) \<in> seen then dedup U qs clean seen
      else dedup U qs (clean @ [tidy q]) (insert (lower U (tidy q)) seen))"

definition parse_numbered_questions :: "ucd \<Rightarrow> ustring \<Rightarrow> int \<Rightarrow> ustring list" where
  "parse_numbered_questions U text max_items =
     dedup U (slice_to max_items (candidates U text)) [] {}"

text \<open>The number of groups of a pattern.\<close>

fun ngroups :: "atom list \<Rightarrow> nat" where
  "ngroups [] = 0"
| "ngroups (Cls P q cap # p) = (if cap then Suc (ngroups p) else ngroups p)"
| "ngroups (a # p) = ngroups p"

section \<open>The updater\<close>

text \<open>
  \<^verbatim>\<open>
  def version_tuple(v: str):
      nums = [int(x) for x in re.findall(r"\d+", v or "0")]
      return tuple(nums) or (0,)
  \<close>
  \<open>int(x)\<close> reads a run of decimal digits; every character of a match of \<open>\d+\<close> is
  one, so the case \<open>None\<close> of \<open>decimal_value\<close> is never taken (lemma \<open>findall_digits\<close>).
  CPython refuses to convert a string of more than \<open>sys.int_max_str_digits\<close> digits,
  leading zeros counted: \<open>int()\<close> raises \<open>ValueError\<close>.  The limit is 4300 unless it is
  changed, and the program does not change it.  A result \<open>Inl e\<close> is an exception raised,
  \<open>e\<close> its text.  The list comprehension stops at the first \<open>int(x)\<close> that raises.
\<close>

definition digits :: "ucd \<Rightarrow> atom list" where
  "digits U = [Cls (is_digit U) Plus False]"

definition int_max_str_digits :: nat where
  "int_max_str_digits = 4300"

definition decimal_value :: "ucd \<Rightarrow> ustring \<Rightarrow> int" where
  "decimal_value U x =
     foldl (\<lambda>a c. 10 * a + int (case digit_value U c of Some d \<Rightarrow> d | None \<Rightarrow> 0)) 0 x"

definition py_int :: "ucd \<Rightarrow> ustring \<Rightarrow> ustring + int" where
  "py_int U x =
     (if int_max_str_digits < length x then Inl (int_error U (length x))
      else Inr (decimal_value U x))"

fun nums_of :: "ucd \<Rightarrow> ustring list \<Rightarrow> ustring + int list" where
  "nums_of U [] = Inr []"
| "nums_of U (x # xs) =
     (case py_int U x of
        Inl e \<Rightarrow> Inl e
      | Inr i \<Rightarrow> (case nums_of U xs of Inl e \<Rightarrow> Inl e | Inr nums \<Rightarrow> Inr (i # nums)))"

definition version_tuple :: "ucd \<Rightarrow> ustring \<Rightarrow> ustring + int list" where
  "version_tuple U v =
     (case nums_of U (re_findall (digits U) 0 (if v = [] then ustr ''0'' else v)) of
        Inl e \<Rightarrow> Inl e
      | Inr nums \<Rightarrow> Inr (if nums = [] then [0] else nums))"

text \<open>
  The integers appearing in a string, in the words of the specification: the values of
  its maximal runs of decimal digits, from left to right.
\<close>

function digit_runs :: "ucd \<Rightarrow> ustring \<Rightarrow> ustring list" where
  "digit_runs U [] = []"
| "digit_runs U (c # cs) =
     (if is_digit U c
      then (c # takeWhile (is_digit U) cs) # digit_runs U (dropWhile (is_digit U) cs)
      else digit_runs U cs)"
  by pat_completeness auto
termination
  by (relation "measure (\<lambda>(U, s). length s)") (auto simp: length_dropWhile_le le_imp_less_Suc)

definition integers_appearing_in :: "ucd \<Rightarrow> ustring \<Rightarrow> int list" where
  "integers_appearing_in U s = map (decimal_value U) (digit_runs U s)"

text \<open>
  Python compares tuples by their first differing items, and by their lengths when one is
  a prefix of the other.
\<close>

fun tuple_lt :: "int list \<Rightarrow> int list \<Rightarrow> bool" where
  "tuple_lt [] [] = False"
| "tuple_lt [] (y # ys) = True"
| "tuple_lt (x # xs) [] = False"
| "tuple_lt (x # xs) (y # ys) = (if x = y then tuple_lt xs ys else x < y)"

fun tuple_gt :: "int list \<Rightarrow> int list \<Rightarrow> bool" where
  "tuple_gt [] [] = False"
| "tuple_gt [] (y # ys) = False"
| "tuple_gt (x # xs) [] = True"
| "tuple_gt (x # xs) (y # ys) = (if x = y then tuple_gt xs ys else x > y)"

fun tuple_le :: "int list \<Rightarrow> int list \<Rightarrow> bool" where
  "tuple_le [] [] = True"
| "tuple_le [] (y # ys) = True"
| "tuple_le (x # xs) [] = False"
| "tuple_le (x # xs) (y # ys) = (if x = y then tuple_le xs ys else x \<le> y)"

definition APP_VERSION :: ustring where
  "APP_VERSION = ustr ''0.23 BETA''"

definition AUTO_UPDATE_ENABLED :: bool where
  "AUTO_UPDATE_ENABLED = True"

text \<open>
  The manifest is a JSON object with the fields \<open>version\<close>, \<open>url\<close>, \<open>sha256\<close> and
  \<open>notes\<close>.  A field is \<open>None\<close> when the manifest does not have it or has it as
  \<open>null\<close> (the code treats the two alike), and else a string; values of other JSON types
  are not modelled.
\<close>

record manifest =
  m_version :: "ustring option"
  m_url :: "ustring option"
  m_sha256 :: "ustring option"
  m_notes :: "ustring option"

text \<open>\<open>m.get("version", "0")\<close>, as \<open>version_tuple\<close> reads it.\<close>

definition latest_of :: "manifest \<Rightarrow> ustring" where
  "latest_of m = (case m_version m of None \<Rightarrow> ustr ''0'' | Some v \<Rightarrow> v)"

text \<open>
  \<^verbatim>\<open>
  class BackgroundUpdateChecker(QThread):
      update_available = pyqtSignal(dict)  # manifest data
      check_completed = pyqtSignal(bool)   # True if update available, False if up to date
      def run(self):
          try:
              if not AUTO_UPDATE_ENABLED:
                  return
              m = fetch_manifest(UPDATE_MANIFEST_URL, NETWORK_TIMEOUT_SEC)
              latest = m.get("version", "0")
              if version_tuple(latest) > version_tuple(APP_VERSION):
                  self.update_available.emit(m)
                  self.check_completed.emit(True)
              else:
                  self.check_completed.emit(False)
          except Exception as e:
              debug_print(f"Background update check failed: {e}")
              self.check_completed.emit(False)
  \<close>
  What \<open>fetch_manifest\<close> gives is an input of the model: \<open>Inl\<close> the text of the exception
  it raised (also when the JSON fetched is not an object, so that \<open>m.get\<close> raises inside
  the same \<open>try\<close>), \<open>Inr\<close> the manifest.  The result is the list of signals emitted.
  Python evaluates the left operand of the comparison first; an exception of either
  \<open>version_tuple\<close> ends in the handler.
\<close>

datatype signal = Update_available manifest | Check_completed bool

definition background_check :: "ucd \<Rightarrow> ustring + manifest \<Rightarrow> signal list" where
  "background_check U fetched =
     (if \<not> AUTO_UPDATE_ENABLED then []
      else case fetched of
        Inl e \<Rightarrow> [Check_completed False]
      | Inr m \<Rightarrow>
          (case version_tuple U (latest_of m) of
             Inl e \<Rightarrow> [Check_completed False]
           | Inr a \<Rightarrow>
               (case version_tuple U APP_VERSION of
                  Inl e \<Rightarrow> [Check_completed False]
                | Inr b \<Rightarrow>
                    if tuple_gt a b then [Update_available m, Check_completed True]
                    else [Check_completed False])))"

text \<open>
  What the updater does to the world is a log of events; its one variable is the module's
  flag \<open>UPDATE_IN_PROGRESS\<close>.  \<open>Uncaught e\<close> is an exception that leaves a callback with
  no handler in the program, to the event loop of Qt.
\<close>

datatype event =
    Fetch
  | Information ustring ustring
  | Warning ustring ustring
  | Critical ustring ustring
  | Update_dialog ustring "ustring option"
  | Progress_shown
  | Progress_closed
  | Download "ustring option"
  | Replace ustring
  | Exit
  | Uncaught ustring

record updater =
  UPDATE_IN_PROGRESS :: bool
  events :: "event list"

definition emit :: "event list \<Rightarrow> updater \<Rightarrow> updater" where
  "emit es st = st\<lparr>events := events st @ es\<rparr>"

text \<open>
  The inputs of one update: what \<open>fetch_manifest\<close> gives, whether the user accepts the
  dialog, an exception raised while the progress dialog and the downloader are made and
  started, what \<open>sha256_of_file\<close> gives for a path (\<open>Inr\<close> the digest as \<open>hexdigest()\<close>
  gives it, \<open>Inl\<close> the text of the exception raised when the file cannot be opened or
  read), and how \<open>begin_update_replace\<close> ends.
  \<^verbatim>\<open>
  def sha256_of_file(path: str) -> str:
      import hashlib as _h
      h = _h.sha256()
      with open(path, "rb") as f:
          for b in iter(lambda: f.read(1024 * 1024), b""):
              h.update(b)
      return h.hexdigest()
  \<close>
\<close>

datatype replace_outcome = Exits | Locked | Fails ustring

record update_env =
  fetch_manifest :: "ustring + manifest"
  user_accepts :: bool
  setup_error :: "ustring option"
  sha256_of_file :: "ustring \<Rightarrow> ustring + ustring"
  replace_outcome :: replace_outcome

definition already_text :: ustring where
  "already_text = ustr ''An update is already in progress. Please wait for it to complete.''"

definition latest_text :: ustring where
  "latest_text = ustr ''You're on the latest version (v'' @ APP_VERSION @ ustr '').''"

definition starting_text :: ustring where
  "starting_text =
     ustr ''Starting update process...\<newline>\<newline>Please wait while the update is prepared.\<newline>Do not close the application during this process.''"

text \<open>
  \<^verbatim>\<open>
  def check_for_updates(parent, show_updater_pane=False):
      global UPDATE_IN_PROGRESS
      if UPDATE_IN_PROGRESS:
          QMessageBox.information(parent, "Update", "An update is already in progress. ...")
          return False
      try:
          m = fetch_manifest(UPDATE_MANIFEST_URL, NETWORK_TIMEOUT_SEC)
          latest = m.get("version", "0"); url = m.get("url"); sha = m.get("sha256"); notes = m.get("notes")
          if version_tuple(latest) <= version_tuple(APP_VERSION):
              if not show_updater_pane:
                  QMessageBox.information(parent, "Updater", f"You're on the latest version (v{APP_VERSION}).")
              return False
          update_dialog = UpdateAvailableDialog(parent, latest, APP_VERSION, notes)
          if update_dialog.exec_() != QDialog.Accepted:
              return False
          UPDATE_IN_PROGRESS = True
          dlg = _ProgressDialog(parent); dl = _Downloader(url)
          dl.progress.connect(dlg.set_progress)
          def on_done(path): ...
          def on_err(msg): ...
          dl.done.connect(on_done); dl.err.connect(on_err)
          dl.start(); dlg.show()
          return True
      except Exception as e:
          UPDATE_IN_PROGRESS = False
          QMessageBox.critical(parent, "Updater", str(e))
          return False
  \<close>
  The dialog is accepted through its button \<open>Update Now\<close>, whose handler shows the
  message \<open>Starting update process...\<close> first.  \<open>except_handler es e\<close> is the \<open>except\<close>
  clause, reached with the exception \<open>e\<close> after the events \<open>es\<close>.
\<close>

definition except_handler :: "event list \<Rightarrow> ustring \<Rightarrow> updater \<Rightarrow> bool \<times> updater" where
  "except_handler es e st =
     (False, emit (es @ [Critical (ustr ''Updater'') e]) (st\<lparr>UPDATE_IN_PROGRESS := False\<rparr>))"

definition check_for_updates ::
  "ucd \<Rightarrow> update_env \<Rightarrow> bool \<Rightarrow> updater \<Rightarrow> bool \<times> updater" where
  "check_for_updates U E show_updater_pane st =
     (if UPDATE_IN_PROGRESS st
      then (False, emit [Information (ustr ''Update'') already_text] st)
      else case fetch_manifest E of
        Inl e \<Rightarrow> except_handler [Fetch] e st
      | Inr m \<Rightarrow>
          (case version_tuple U (latest_of m) of
             Inl e \<Rightarrow> except_handler [Fetch] e st
           | Inr a \<Rightarrow>
               (case version_tuple U APP_VERSION of
                  Inl e \<Rightarrow> except_handler [Fetch] e st
                | Inr b \<Rightarrow>
                    if tuple_le a b
                    then (False,
                          emit (Fetch # (if show_updater_pane then []
                                         else [Information (ustr ''Updater'') latest_text])) st)
                    else if \<not> user_accepts E
                    then (False, emit [Fetch, Update_dialog (latest_of m) (m_notes m)] st)
                    else (case setup_error E of
                            Some e \<Rightarrow>
                              except_handler
                                [Fetch, Update_dialog (latest_of m) (m_notes m),
                                 Information (ustr ''Update'') starting_text] e st
                          | None \<Rightarrow>
                              (True,
                               emit [Fetch, Update_dialog (latest_of m) (m_notes m),
                                     Information (ustr ''Update'') starting_text,
                                     Download (m_url m), Progress_shown]
                                 (st\<lparr>UPDATE_IN_PROGRESS := True\<rparr>))))))"

text \<open>
  \<open>begin_update_replace(path, current_executable_path())\<close> starts with
  \<open>global UPDATE_IN_PROGRESS\<close>.  It copies the download beside the executable and leaves
  the application (\<open>sys.exit\<close>); or, on Windows, it finds the lock file of another update,
  warns and returns; or an exception is raised, and its handler clears the flag and shows
  the error.  Its own message boxes on the way to the exit are not listed.
\<close>

definition begin_update_replace :: "update_env \<Rightarrow> ustring \<Rightarrow> updater \<Rightarrow> updater" where
  "begin_update_replace E path st =
     (case replace_outcome E of
        Exits \<Rightarrow> emit [Replace path, Exit] st
      | Locked \<Rightarrow>
          emit [Replace path,
                Warning (ustr ''Update'')
                  (ustr ''Another update is already in progress. Please wait for it to complete.'')] st
      | Fails e \<Rightarrow>
          emit [Replace path,
                Critical (ustr ''Updater'') (ustr ''Failed to finalize update:\<newline>'' @ e)]
            (st\<lparr>UPDATE_IN_PROGRESS := False\<rparr>))"

text \<open>
  The two callbacks are functions nested in \<open>check_for_updates\<close>; \<open>sha\<close> is the variable
  of the enclosing call they close over.
  \<^verbatim>\<open>
          def on_done(path):
              try:
                  if sha:
                      got = sha256_of_file(path)
                      if got.lower() != sha.lower():
                          dlg.close(); QMessageBox.critical(parent, "Updater", "SHA-256 mismatch. Update aborted.");
                          UPDATE_IN_PROGRESS = False; return
                  dlg.close(); QMessageBox.information(parent, "Updater", "Update downloaded. The app will exit to finalize.")
                  begin_update_replace(path, current_executable_path())
              finally:
                  pass
          def on_err(msg):
              dlg.close(); QMessageBox.critical(parent, "Download Failed", msg)
              UPDATE_IN_PROGRESS = False
  \<close>
  Neither nested function has a \<open>global\<close> statement of its own, and the one of
  \<open>check_for_updates\<close> holds for the body of \<open>check_for_updates\<close> only.  In Python a
  name assigned in a function is local to that function unless the function itself
  declares it \<open>global\<close> or \<open>nonlocal\<close>: each \<open>UPDATE_IN_PROGRESS = False\<close> here binds a
  local variable of the callback, which ends with it, and the module's flag keeps its
  value.  The \<open>try\<close> of \<open>on_done\<close> has no \<open>except\<close> clause: an exception of
  \<open>sha256_of_file\<close> leaves the callback before anything is closed or shown.
\<close>

definition on_done :: "ucd \<Rightarrow> update_env \<Rightarrow> ustring option \<Rightarrow> ustring \<Rightarrow> updater \<Rightarrow> updater" where
  "on_done U E sha path st =
     (let finalize =
            begin_update_replace E path
              (emit [Progress_closed,
                     Information (ustr ''Updater'')
                       (ustr ''Update downloaded. The app will exit to finalize.'')] st)
      in case sha of
           None \<Rightarrow> finalize
         | Some s \<Rightarrow>
             if s = [] then finalize
             else (case sha256_of_file E path of
                     Inl e \<Rightarrow> emit [Uncaught e] st
                   | Inr got \<Rightarrow>
                       if lower U got \<noteq> lower U s
                       then emit [Progress_closed,
                                  Critical (ustr ''Updater'')
                                    (ustr ''SHA-256 mismatch. Update aborted.'')] st
                       else finalize))"

definition on_err :: "ustring \<Rightarrow> updater \<Rightarrow> updater" where
  "on_err msg st = emit [Progress_closed, Critical (ustr ''Download Failed'') msg] st"

text \<open>
  The downloader's thread ends with the signal \<open>done(path)\<close> or \<open>err(msg)\<close>, which runs
  the callback of the call that started it.
\<close>

datatype download_result = Done ustring | Err ustring

definition download_finished ::
  "ucd \<Rightarrow> update_env \<Rightarrow> download_result \<Rightarrow> updater \<Rightarrow> updater" where
  "download_finished U E res st =
     (case res of
        Done path \<Rightarrow>
          on_done U E (case fetch_manifest E of Inl e \<Rightarrow> None | Inr m \<Rightarrow> m_sha256 m) path st
      | Err msg \<Rightarrow> on_err msg st)"

text \<open>The events a step has added to the log.\<close>

definition new_events :: "updater \<Rightarrow> updater \<Rightarrow> event list" where
  "new_events st st' = drop (length (events st)) (events st')"

section \<open>DOCX to PDF\<close>

text \<open>
  The four converters \<open>_reportlab_to_pdf\<close>, \<open>_docx2pdf_to_pdf\<close>, \<open>_word_com_to_pdf\<close> and
  \<open>_soffice_to_pdf\<close> call external libraries and programs.  Each either writes the PDF
  and returns, or raises; what a converter does on this machine is an input of the model:
  \<open>None\<close> when it succeeds, and the text \<open>str(e)\<close> of its exception when it fails.  A
  conversion returns the converters it has run, in order, with \<open>Inr ()\<close> when it returns
  and \<open>Inl\<close> the text of the \<open>RuntimeError\<close> when it raises.
\<close>

datatype converter = ReportLab | Docx2pdf | WordCom | LibreOffice

type_synonym converters = "converter \<Rightarrow> ustring option"

definition reportlab_missing_text :: ustring where
  "reportlab_missing_text =
     ustr ''ReportLab library is not installed.\<newline>\<newline>To fix this issue:\<newline>1. Install ReportLab: pip install reportlab\<newline>2. Restart the application after installation\<newline>\<newline>This provides self-contained PDF generation without external dependencies.''"

definition both_missing_text :: ustring where
  "both_missing_text =
     ustr ''Neither ReportLab nor docx2pdf are available.\<newline>\<newline>To fix this issue:\<newline>1. Install ReportLab: pip install reportlab (recommended)\<newline>2. Or install docx2pdf: pip install docx2pdf (requires Word)\<newline>3. Restart the application after installation\<newline>\<newline>ReportLab provides self-contained PDF generation.''"

definition both_failed_text :: "ustring \<Rightarrow> ustring \<Rightarrow> ustring" where
  "both_failed_text e e2 =
     ustr ''PDF conversion failed with both methods:\<newline>\<newline>ReportLab error: '' @ e
     @ ustr ''\<newline>docx2pdf error: '' @ e2
     @ ustr ''\<newline>\<newline>Please install ReportLab for self-contained PDF generation:\<newline>pip install reportlab''"

text \<open>
  \<^verbatim>\<open>
  def convert_docx_to_pdf(docx_path, pdf_path, unit_title="", questions=None):
      """Convert DOCX to PDF using ReportLab (self-contained method)"""
      try:
          _reportlab_to_pdf(docx_path, pdf_path, unit_title, questions)
          return
      except Exception as e:
          # If ReportLab fails, try docx2pdf as fallback
          try:
              _docx2pdf_to_pdf(docx_path, pdf_path)
              return
          except Exception as e2:
              error_msg = str(e)
              if "ReportLab library not available" in error_msg:
                  raise RuntimeError("ReportLab library is not installed. ...")
              elif "docx2pdf not available" in str(e2):
                  raise RuntimeError("Neither ReportLab nor docx2pdf are available. ...")
              else:
                  raise RuntimeError(f"PDF conversion failed with both methods: ...")
  \<close>
\<close>

definition convert_docx_to_pdf :: "converters \<Rightarrow> converter list \<times> (ustring + unit)" where
  "convert_docx_to_pdf run =
     (case run ReportLab of
        None \<Rightarrow> ([ReportLab], Inr ())
      | Some e \<Rightarrow>
          (case run Docx2pdf of
             None \<Rightarrow> ([ReportLab, Docx2pdf], Inr ())
           | Some e2 \<Rightarrow>
               ([ReportLab, Docx2pdf],
                Inl (if contains e (ustr ''ReportLab library not available'')
                     then reportlab_missing_text
                     else if contains e2 (ustr ''docx2pdf not available'')
                     then both_missing_text
                     else both_failed_text e e2))))"

text \<open>
  \<^verbatim>\<open>
  def convert_docx_to_pdf_with_method(docx_path, pdf_path, method="reportlab", unit_title="", questions=None):
      """Convert DOCX to PDF using a specific method (for debug mode)"""
      if method == "auto":
          return convert_docx_to_pdf(docx_path, pdf_path, unit_title, questions)
      try:
          if method == "reportlab":
              _reportlab_to_pdf(docx_path, pdf_path, unit_title, questions)
          elif method == "word_com":
              _word_com_to_pdf(docx_path, pdf_path)
          elif method == "docx2pdf":
              _docx2pdf_to_pdf(docx_path, pdf_path)
          elif method == "libreoffice":
              _soffice_to_pdf(docx_path, pdf_path)
          else:
              raise RuntimeError(f"Unknown PDF conversion method: {method}")
      except Exception as e:
          raise RuntimeError(f"Selected PDF method '{method}' failed: {str(e)}")
  \<close>
\<close>

definition selected_failed_text :: "ustring \<Rightarrow> ustring \<Rightarrow> ustring" where
  "selected_failed_text method e =
     ustr ''Selected PDF method '' @ [39] @ method @ [39] @ ustr '' failed: '' @ e"

definition method_converter :: "ustring \<Rightarrow> converter option" where
  "method_converter method =
     (if method = ustr ''reportlab'' then Some ReportLab
      else if method = ustr ''word_com'' then Some WordCom
      else if method = ustr ''docx2pdf'' then Some Docx2pdf
      else if method = ustr ''libreoffice'' then Some LibreOffice
      else None)"

definition convert_docx_to_pdf_with_method ::
  "converters \<Rightarrow> ustring \<Rightarrow> converter list \<times> (ustring + unit)" where
  "convert_docx_to_pdf_with_method run method =
     (if method = ustr ''auto'' then convert_docx_to_pdf run
      else case method_converter method of
        None \<Rightarrow>
          ([], Inl (selected_failed_text method
                     (ustr ''Unknown PDF conversion method: '' @ method)))
      | Some c \<Rightarrow>
          (case run c of
             None \<Rightarrow> ([c], Inr ())
           | Some e \<Rightarrow> ([c], Inl (selected_failed_text method e))))"

section \<open>The application window\<close>

text \<open>
  The part of \<open>App\<close> the claims speak of: the three inputs of the document, the rows
  that show the questions, the preview pane, the preview workers of \<open>self._workers\<close>,
  and the message boxes shown.  \<open>files\<close> is the part of the file system the window
  touches: a path is mapped to \<open>None\<close> when no file is there, and else to whether the
  file is an image that \<open>QPixmap\<close> can load.  \<open>remove_refused\<close> tells of a path whether
  the system refuses to remove the file there (it is open in another program, or its
  directory is protected).
\<close>

record question_row =
  row_text :: ustring
  is_real_content :: bool
  regen_indicator :: bool

record preview_worker =
  w_id :: nat
  w_key :: ustring
  w_unit_title :: ustring
  w_level :: ustring
  w_questions :: "ustring list"

record app =
  unit_title :: ustring
  level :: ustring
  questions :: "ustring list"
  row_widgets :: "question_row list"
  preview_visible :: bool
  preview_overlay :: bool
  preview_pixmap :: "ustring option"
  workers :: "preview_worker list"
  next_worker :: nat
  files :: "ustring \<Rightarrow> bool option"
  remove_refused :: "ustring \<Rightarrow> bool"
  boxes :: "event list"

datatype py_error = IndexError | UnicodeEncodeError | OSError

text \<open>
  \<open>os.remove(path)\<close> removes the file, or raises \<open>OSError\<close> (or one of its subclasses)
  when there is no file or the system refuses.
\<close>

definition os_remove :: "ustring \<Rightarrow> app \<Rightarrow> py_error option \<times> app" where
  "os_remove path st =
     (if files st path = None \<or> remove_refused st path then (Some OSError, st)
      else (None, st\<lparr>files := (files st)(path := None)\<rparr>))"

text \<open>
  \<open>s.encode("utf-8")\<close>: a surrogate (and a number that is no code point) cannot be
  encoded, and the call raises \<open>UnicodeEncodeError\<close>.
\<close>

definition utf8_char :: "uchar \<Rightarrow> nat list option" where
  "utf8_char c =
     (if c < 128 then Some [c]
      else if c < 2048 then Some [192 + c div 64, 128 + c mod 64]
      else if 55296 \<le> c \<and> c \<le> 57343 then None
      else if c < 65536 then Some [224 + c div 4096, 128 + c div 64 mod 64, 128 + c mod 64]
      else if c < 1114112
      then Some [240 + c div 262144, 128 + c div 4096 mod 64, 128 + c div 64 mod 64,
                 128 + c mod 64]
      else None)"

fun utf8 :: "ustring \<Rightarrow> nat list option" where
  "utf8 [] = Some []"
| "utf8 (c # cs) =
     (case utf8_char c of
        None \<Rightarrow> None
      | Some bs \<Rightarrow> (case utf8 cs of None \<Rightarrow> None | Some r \<Rightarrow> Some (bs @ r)))"

text \<open>
  \<^verbatim>\<open>
  def _content_key(self):
      h = hashlib.sha1(); h.update((self.unit_title or "").encode("utf-8")); h.update((self.level or "").encode("utf-8"))
      for q in self.questions: h.update(b"|"); h.update(q.encode("utf-8"))
      return h.hexdigest()
  \<close>
  SHA-1 is a parameter: \<open>H\<close> maps the bytes fed to the hash, all updates in a row, to
  the hexadecimal digest.  The result is \<open>None\<close> when an \<open>encode\<close> raises.
\<close>

fun question_bytes :: "ustring list \<Rightarrow> nat list option" where
  "question_bytes [] = Some []"
| "question_bytes (q # qs) =
     (case utf8 q of
        None \<Rightarrow> None
      | Some b \<Rightarrow> (case question_bytes qs of None \<Rightarrow> None | Some r \<Rightarrow> Some (124 # b @ r)))"

definition content_key :: "(nat list \<Rightarrow> ustring) \<Rightarrow> app \<Rightarrow> ustring option" where
  "content_key H st =
     (case utf8 (unit_title st) of
        None \<Rightarrow> None
      | Some t \<Rightarrow>
          (case utf8 (level st) of
             None \<Rightarrow> None
           | Some l \<Rightarrow>
               (case question_bytes (questions st) of
                  None \<Rightarrow> None
                | Some qs \<Rightarrow> Some (H (t @ l @ qs)))))"

text \<open>
  \<open>SimplePreview.show_exact(png_path)\<close>: a missing file and a file that does not load
  end in the warning \<open>Exact preview error\<close>; the old pixmap is dropped before the file is
  loaded; the overlay is hidden in every case.
\<close>

definition show_exact :: "ustring \<Rightarrow> app \<Rightarrow> app" where
  "show_exact png st =
     (case files st png of
        None \<Rightarrow>
          st\<lparr>preview_overlay := False,
             boxes := boxes st @ [Warning (ustr ''Exact preview error'') png]\<rparr>
      | Some loads \<Rightarrow>
          if loads
          then st\<lparr>preview_pixmap := Some png, preview_visible := True, preview_overlay := False\<rparr>
          else st\<lparr>preview_pixmap := None, preview_overlay := False,
                  boxes := boxes st @ [Warning (ustr ''Exact preview error'')
                                         (ustr ''Loaded QPixmap is null'')]\<rparr>)"

text \<open>
  The callback of a preview worker's signal \<open>done(key, png_path)\<close>, a function nested in
  \<open>_start_exact_render\<close>; \<open>wid\<close> names the worker of its closure.
  \<^verbatim>\<open>
        def on_done(k, png_path):
            try:
                current_key = self._content_key()
                # Check if this is still the most recent request
                if k == current_key:
                    self.preview.show_exact(png_path)
                    ...
                else:
                    # This is a stale result, clean up the temp file
                    try:
                        if os.path.exists(png_path):
                            os.remove(png_path)
                    except Exception:
                        pass
            finally:
                self._workers.discard(worker)
  \<close>
  An exception of \<open>os.remove\<close> is caught and dropped, and the file stays.  When
  \<open>_content_key\<close> raises, only the \<open>finally\<close> clause runs.
\<close>

definition discard_worker :: "nat \<Rightarrow> app \<Rightarrow> app" where
  "discard_worker wid st = st\<lparr>workers := filter (\<lambda>w. w_id w \<noteq> wid) (workers st)\<rparr>"

definition preview_done :: "(nat list \<Rightarrow> ustring) \<Rightarrow> nat \<Rightarrow> ustring \<Rightarrow> ustring \<Rightarrow> app \<Rightarrow> app" where
  "preview_done H wid k png_path st =
     discard_worker wid
       (case content_key H st of
          None \<Rightarrow> st
        | Some current_key \<Rightarrow>
            if k = current_key then show_exact png_path st
            else if files st png_path \<noteq> None then snd (os_remove png_path st)
            else st)"

text \<open>
  \<^verbatim>\<open>
    def _start_exact_render(self):
        for worker in list(self._workers):
            if isinstance(worker, PreviewWorker):
                worker.quit()
                worker.wait(100)  # Wait up to 100ms for cleanup
                self._workers.discard(worker)
        key = self._content_key()
        ...
        worker = PreviewWorker(key, self.unit_title, self.level, self.questions, pdf_method)
        ...
        self._workers.add(worker)
        ...
        worker.done.connect(on_done); worker.failed.connect(on_fail); worker.start()
  \<close>
  A worker discarded here may still end with \<open>done\<close>: \<open>quit\<close> does not stop its \<open>run\<close>.
\<close>

definition start_exact_render :: "(nat list \<Rightarrow> ustring) \<Rightarrow> app \<Rightarrow> py_error option \<times> app" where
  "start_exact_render H st =
     (case content_key H st of
        None \<Rightarrow> (Some UnicodeEncodeError, st\<lparr>workers := []\<rparr>)
      | Some key \<Rightarrow>
          (None,
           st\<lparr>workers := [\<lparr>w_id = next_worker st, w_key = key, w_unit_title = unit_title st,
                             w_level = level st, w_questions = questions st\<rparr>],
              next_worker := Suc (next_worker st)\<rparr>))"

text \<open>\<open>xs[i]\<close> for a Python list of length \<open>n\<close>: the position meant, if there is one.\<close>

definition py_index :: "nat \<Rightarrow> int \<Rightarrow> nat option" where
  "py_index n i =
     (if 0 \<le> i \<and> i < int n then Some (nat i)
      else if - int n \<le> i \<and> i < 0 then Some (nat (int n + i))
      else None)"

text \<open>
  \<^verbatim>\<open>
    def _apply_single(self, idx: int, new_q: str):
        self.questions[idx] = new_q
        self.row_widgets[idx].set_text(new_q)
        # Mark the regenerated question as real content (black text)
        self.row_widgets[idx].edit.set_real_content(True)
        # Mark as regenerated to show the indicator
        self.row_widgets[idx].mark_as_regenerated()
        # Auto-trigger exact preview if visible
        try:
            if self.preview.isVisible():
                self.preview.queue_exact(); self._start_exact_render()
        except Exception:
            pass
  \<close>
  An index out of range raises \<open>IndexError\<close> at the statement that uses it, after the
  statements before it have had their effect.
\<close>

definition apply_single ::
  "(nat list \<Rightarrow> ustring) \<Rightarrow> int \<Rightarrow> ustring \<Rightarrow> app \<Rightarrow> py_error option \<times> app" where
  "apply_single H idx new_q st =
     (case py_index (length (questions st)) idx of
        None \<Rightarrow> (Some IndexError, st)
      | Some i \<Rightarrow>
          (let st1 = st\<lparr>questions := (questions st)[i := new_q]\<rparr> in
           case py_index (length (row_widgets st1)) idx of
             None \<Rightarrow> (Some IndexError, st1)
           | Some j \<Rightarrow>
               (let st2 = st1\<lparr>row_widgets := (row_widgets st1)
                            [j := \<lparr>row_text = new_q, is_real_content = True,
                                   regen_indicator = True\<rparr>]\<rparr>
                in if preview_visible st2
                   then (None, snd (start_exact_render H (st2\<lparr>preview_overlay := True\<rparr>)))
                   else (None, st2))))"

section \<open>The template document\<close>

text \<open>
  A document of \<open>python-docx\<close> as the program uses it: the list \<open>doc.paragraphs\<close>, each
  paragraph with the name of its style and the texts of its runs; \<open>p.text\<close> is the
  runs' texts in a row.  \<open>doc.add_paragraph\<close> is taken to find the style it is given.
\<close>

record para =
  p_style :: ustring
  p_runs :: "ustring list"

definition p_text :: "para \<Rightarrow> ustring" where
  "p_text p = concat (p_runs p)"

text \<open>\<open>s.replace(old, new)\<close>: every occurrence of \<open>old\<close>, from the left, without overlap.\<close>

function py_replace :: "ustring \<Rightarrow> ustring \<Rightarrow> ustring \<Rightarrow> ustring" where
  "py_replace old new [] = (if old = [] then new else [])"
| "py_replace old new (c # cs) =
     (if old = [] then new @ c # py_replace old new cs
      else if startswith (c # cs) old
      then new @ py_replace old new (drop (length old - 1) cs)
      else c # py_replace old new cs)"
  by pat_completeness auto
termination
  by (relation "measure (\<lambda>(old, new, s). length s)") auto

definition LEVEL_TOKENS :: "ustring list" where
  "LEVEL_TOKENS = [ustr ''A1'', ustr ''A2'', ustr ''B1'', ustr ''B1+'', ustr ''B2'',
                   ustr ''C1'', ustr ''C2'']"

definition looking_back :: ustring where
  "looking_back = ustr ''LOOKING BACK''"

text \<open>
  The title placeholder, in both functions:
  \<^verbatim>\<open>
                    if "LOOKING BACK" in p.text:
                        for r in p.runs:
                            if "LOOKING BACK" in r.text:
                                r.text = r.text.replace("LOOKING BACK", self.unit_title)
  \<close>
\<close>

definition title_runs :: "ustring \<Rightarrow> para \<Rightarrow> para" where
  "title_runs title p =
     (if contains (p_text p) looking_back
      then p\<lparr>p_runs := map (\<lambda>r. if contains r looking_back
                                 then py_replace looking_back title r else r) (p_runs p)\<rparr>
      else p)"

text \<open>
  The level tokens in \<open>export_docx\<close>: the first token found in a run is replaced, and
  the loop over the tokens ends.
  \<^verbatim>\<open>
                    for r in p.runs:
                        txt = r.text or ""
                        for tok in LEVEL_TOKENS:
                            if tok in txt: r.text = txt.replace(tok, self.level); break
  \<close>
\<close>

fun first_token :: "ustring \<Rightarrow> ustring list \<Rightarrow> ustring \<Rightarrow> ustring" where
  "first_token lvl [] txt = txt"
| "first_token lvl (tok # toks) txt =
     (if contains txt tok then py_replace tok lvl txt else first_token lvl toks txt)"

definition export_fill :: "ustring \<Rightarrow> ustring \<Rightarrow> para \<Rightarrow> para" where
  "export_fill title lvl p =
     (let p1 = title_runs title p
      in p1\<lparr>p_runs := map (first_token lvl LEVEL_TOKENS) (p_runs p1)\<rparr>)"

text \<open>
  The level tokens in \<open>PreviewWorker._replace_level_and_title\<close>: every token found is
  replaced, one after the other, in the text as the tokens before have left it.
  \<^verbatim>\<open>
            for p in search_range:
                for r in p.runs:
                    txt = r.text or ""
                    for tok in LEVEL_TOKENS:
                        if tok in txt: txt = txt.replace(tok, self.level)
                    r.text = txt
  \<close>
  Both loops of that function run over \<open>doc.paragraphs[:max(0, idx_disc)+1]\<close>.
\<close>

fun all_tokens :: "ustring \<Rightarrow> ustring list \<Rightarrow> ustring \<Rightarrow> ustring" where
  "all_tokens lvl [] txt = txt"
| "all_tokens lvl (tok # toks) txt =
     all_tokens lvl toks (if contains txt tok then py_replace tok lvl txt else txt)"

definition preview_fill :: "ustring \<Rightarrow> ustring \<Rightarrow> para \<Rightarrow> para" where
  "preview_fill title lvl p =
     (let p1 = title_runs title p
      in p1\<lparr>p_runs := map (all_tokens lvl LEVEL_TOKENS) (p_runs p1)\<rparr>)"

definition replace_level_and_title ::
  "ustring \<Rightarrow> ustring \<Rightarrow> nat \<Rightarrow> para list \<Rightarrow> para list" where
  "replace_level_and_title title lvl idx_disc doc =
     map (preview_fill title lvl) (take (Suc idx_disc) doc) @ drop (Suc idx_disc) doc"

text \<open>
  \<^verbatim>\<open>
            idx_disc = None
            for i, p in enumerate(doc.paragraphs):
                if (p.text or "").strip() == "Discussion": idx_disc = i; break
  \<close>
\<close>

fun find_discussion_from :: "nat \<Rightarrow> para list \<Rightarrow> nat option" where
  "find_discussion_from i [] = None"
| "find_discussion_from i (p # ps) =
     (if strip (p_text p) = ustr ''Discussion'' then Some i
      else find_discussion_from (Suc i) ps)"

definition find_discussion :: "para list \<Rightarrow> nat option" where
  "find_discussion doc = find_discussion_from 0 doc"

text \<open>
  The first numbered item after the marker, with its style and its prefix.  The pattern
  is \<^verbatim>\<open>^\s*(1(\.|\))\s+)\<close>; its group 1 is what the three captured classes below
  have matched, in a row.
  \<^verbatim>\<open>
            number_regex = re.compile(r'^\s*1(\.|\))\s+')
            idx_first_q, prefix_example, style_name = None, "1. ", None
            for i in range(idx_disc+1, len(doc.paragraphs)):
                t = doc.paragraphs[i].text
                if number_regex.match(t or ""):
                    idx_first_q = i; style_name = doc.paragraphs[i].style.name
                    m = re.match(r'^\s*(1(\.|\))\s+)', t)
                    if m: prefix_example = m.group(1)
                    break
  \<close>
\<close>

definition digit_one :: "uchar \<Rightarrow> bool" where
  "digit_one c = (c = 49)"

definition first_item :: "atom list" where
  "first_item =
     [Bol, Cls is_space Star False, Cls digit_one Once True, Cls dot_or_rparen Once True,
      Cls is_space Plus True]"

fun find_first_q :: "nat \<Rightarrow> para list \<Rightarrow> (nat \<times> ustring \<times> ustring) option" where
  "find_first_q i [] = None"
| "find_first_q i (p # ps) =
     (case re_match first_item (p_text p) of
        Some gs \<Rightarrow> Some (i, p_style p, concat gs)
      | None \<Rightarrow> find_first_q (Suc i) ps)"

text \<open>
  \<^verbatim>\<open>
            dot_or_paren = '.' if '. ' in prefix_example else ')'
            space_part = prefix_example.split(dot_or_paren, 1)[1] if dot_or_paren in prefix_example else ' '
            if not space_part: space_part = ' '
  \<close>
\<close>

definition dot_or_paren :: "ustring \<Rightarrow> uchar" where
  "dot_or_paren prefix_example = (if contains prefix_example [46, 32] then 46 else 41)"

definition space_part :: "ustring \<Rightarrow> ustring" where
  "space_part prefix_example =
     (let d = dot_or_paren prefix_example;
          sp = (if d \<in> set prefix_example then tl (dropWhile (\<lambda>c. c \<noteq> d) prefix_example)
                else [32])
      in if sp = [] then [32] else sp)"

text \<open>\<open>str(i)\<close> for a number of the enumeration.\<close>

function str_nat :: "nat \<Rightarrow> ustring" where
  "str_nat n = (if n < 10 then [48 + n] else str_nat (n div 10) @ [48 + n mod 10])"
  by pat_completeness auto
termination
  by (relation "measure id") auto

declare str_nat.simps [simp del]

text \<open>
  \<^verbatim>\<open>
            for i, q in enumerate(..., 1):
                para = doc.add_paragraph(style=style_name)
                run = para.add_run(f"{i}{dot_or_paren}{space_part}{q}")
  \<close>
\<close>

fun numbered_paragraphs ::
  "ustring \<Rightarrow> ustring \<Rightarrow> nat \<Rightarrow> ustring list \<Rightarrow> para list" where
  "numbered_paragraphs style prefix_example i [] = []"
| "numbered_paragraphs style prefix_example i (q # qs) =
     \<lparr>p_style = style,
      p_runs = [str_nat i @ [dot_or_paren prefix_example] @ space_part prefix_example @ q]\<rparr>
     # numbered_paragraphs style prefix_example (Suc i) qs"

text \<open>
  The old questions go and the new ones come.  In \<open>export_docx\<close> the style, when no
  numbered item was found, is read after the paragraphs behind the marker are removed, so
  it is \<open>Normal\<close>; \<open>PreviewWorker.run\<close> reads it before it removes them.
\<close>

definition export_questions :: "nat \<Rightarrow> ustring list \<Rightarrow> para list \<Rightarrow> para list" where
  "export_questions idx_disc qs doc =
     (case find_first_q (Suc idx_disc) (drop (Suc idx_disc) doc) of
        Some (idx_first_q, style_name, prefix_example) \<Rightarrow>
          take idx_first_q doc @ numbered_paragraphs style_name prefix_example 1 qs
      | None \<Rightarrow>
          take (Suc idx_disc) doc @ numbered_paragraphs (ustr ''Normal'') (ustr ''1. '') 1 qs)"

definition preview_questions :: "nat \<Rightarrow> ustring list \<Rightarrow> para list \<Rightarrow> para list" where
  "preview_questions idx_disc qs doc =
     (case find_first_q (Suc idx_disc) (drop (Suc idx_disc) doc) of
        Some (idx_first_q, style_name, prefix_example) \<Rightarrow>
          take idx_first_q doc @ numbered_paragraphs style_name prefix_example 1 qs
      | None \<Rightarrow>
          take (Suc idx_disc) doc
          @ numbered_paragraphs
              (if Suc idx_disc < length doc then p_style (doc ! Suc idx_disc) else ustr ''Normal'')
              (ustr ''1. '') 1 qs)"

text \<open>
  The file at \<open>TEMPLATE_PATH\<close>: missing, or one that \<open>Document(TEMPLATE_PATH)\<close> cannot
  read (with the text of its exception), or a document.
\<close>

datatype template_file = Missing | Unreadable ustring | Template "para list"

definition no_discussion_text :: ustring where
  "no_discussion_text = ustr ''Could not find \"Discussion\" in template.''"

text \<open>
  \<open>App.export_docx\<close>.  Its inputs besides the window: the path the file dialog returns
  (empty when the user cancels), the text of the exception when \<open>python-docx\<close> cannot be
  imported, the template with its path, and the text of the exception when \<open>doc.save\<close>
  fails.  It returns the message boxes it shows, and the document it saves with its
  path, if it saves one.  The error box of the last handler also holds the traceback,
  which is left out here.
  \<^verbatim>\<open>
    def export_docx(self):
        if not self.unit_title or not self.unit_title.strip():
            QMessageBox.warning(self, "Unit Title Required", ...)
            return
        path, _ = QFileDialog.getSaveFileName(self, "Export DOCX", f"{self.unit_title}.docx", "Word Document (*.docx)")
        if not path: return
        try:
            from docx import Document
            from docx.shared import Pt
        except Exception as e:
            QMessageBox.critical(self, "Export Error", f"python-docx not installed: {e}"); return
        if not os.path.exists(TEMPLATE_PATH):
            QMessageBox.critical(self, "Export Error", f"Template not found:\n{TEMPLATE_PATH}"); return
        try:
            doc = Document(TEMPLATE_PATH)
            ...
            try:
                for p in doc.paragraphs:
                    (title and level, as above)
            except Exception: pass
            idx_disc = None
            for i, p in enumerate(doc.paragraphs):
                if (p.text or "").strip() == "Discussion": idx_disc = i; break
            if idx_disc is None:
                QMessageBox.critical(self, "Export Error", 'Could not find "Discussion" in template.'); return
            ...
            for i, q in enumerate(_ensure_15(self.questions), 1):
                ...
            doc.save(path)
            QMessageBox.information(self, "Export", f"Saved:\n{path}")
        except Exception as e:
            QMessageBox.critical(self, "Export Error", f"{e}\n\n{traceback.format_exc()}")
  \<close>
\<close>

record export_env =
  save_path :: ustring
  docx_import_error :: "ustring option"
  template_path :: ustring
  template :: template_file
  save_error :: "ustring option"

definition title_required_text :: ustring where
  "title_required_text =
     ustr ''Please enter a unit title before exporting.\<newline>\<newline>The unit title will be used in the exported document.''"

definition export_docx ::
  "export_env \<Rightarrow> app \<Rightarrow> event list \<times> (ustring \<times> para list) option" where
  "export_docx E st =
     (if unit_title st = [] \<or> strip (unit_title st) = []
      then ([Warning (ustr ''Unit Title Required'') title_required_text], None)
      else if save_path E = [] then ([], None)
      else case docx_import_error E of
        Some e \<Rightarrow>
          ([Critical (ustr ''Export Error'') (ustr ''python-docx not installed: '' @ e)], None)
      | None \<Rightarrow>
          (case template E of
             Missing \<Rightarrow>
               ([Critical (ustr ''Export Error'')
                   (ustr ''Template not found:\<newline>'' @ template_path E)], None)
           | Unreadable e \<Rightarrow> ([Critical (ustr ''Export Error'') e], None)
           | Template doc0 \<Rightarrow>
               (let doc = map (export_fill (unit_title st) (level st)) doc0 in
                case find_discussion doc of
                  None \<Rightarrow> ([Critical (ustr ''Export Error'') no_discussion_text], None)
                | Some idx_disc \<Rightarrow>
                    (case save_error E of
                       Some e \<Rightarrow> ([Critical (ustr ''Export Error'') e], None)
                     | None \<Rightarrow>
                         ([Information (ustr ''Export'')
                             (ustr ''Saved:\<newline>'' @ save_path E)],
                          Some (save_path E,
                                export_questions idx_disc (ensure_15 (questions st)) doc))))))"

text \<open>
  \<open>PreviewWorker.run\<close>.  Its inputs besides the worker's own fields: the text of the
  exception when \<open>docx\<close> or \<open>fitz\<close> cannot be imported, the template, \<open>DEBUG_MODE\<close>, what
  the converters do, the path of the PNG in the fresh temporary directory, the text of
  the exception \<open>fitz.open\<close> raises for a PDF that is not there, and the text of an
  exception raised while the page is rendered and the PNG is checked.  It returns the
  signals emitted.  After a failed conversion the handler emits \<open>failed\<close> and does not
  return: \<open>fitz.open\<close> then raises for the missing PDF and \<open>failed\<close> is emitted again.
  \<^verbatim>\<open>
    def run(self):
        try:
            from docx import Document
            import fitz
        except Exception as e:
            self.failed.emit(f"Preview deps missing: {e}"); return
        if not os.path.exists(TEMPLATE_PATH):
            self.failed.emit("Template not found."); return
        try:
            ...
            doc = Document(TEMPLATE_PATH)
            ...
            idx_disc=None
            for i,p in enumerate(doc.paragraphs):
                if (p.text or "").strip()=="Discussion": idx_disc=i; break
            if idx_disc is None:
                self.failed.emit('Could not find "Discussion" in template.'); return
            self._replace_level_and_title(doc, idx_disc)
            ...
            doc.save(tmp_docx)
            try:
                if DEBUG_MODE and self.pdf_method != "reportlab":
                    convert_docx_to_pdf_with_method(tmp_docx, tmp_pdf, self.pdf_method, self.unit_title, self.questions)
                else:
                    convert_docx_to_pdf(tmp_docx, tmp_pdf, self.unit_title, self.questions)
            except Exception as e:
                ...
                error_msg = str(e)
                if "LibreOffice" in error_msg:
                    self.failed.emit("Preview generation failed due to PDF conversion issues. ...")
                elif "All PDF conversion methods failed" in error_msg:
                    self.failed.emit("Preview generation failed - no PDF conversion method is available. ...")
                else:
                    self.failed.emit(f"Preview generation failed: {error_msg}")
            pdf = fitz.open(tmp_pdf)
            ...
            self.done.emit(self.key, tmp_png)
        except Exception as e:
            ...
            self.failed.emit(str(e))
  \<close>
\<close>

datatype preview_signal = Sig_done ustring ustring | Sig_failed ustring

record preview_env =
  deps_error :: "ustring option"
  worker_template :: template_file
  DEBUG_MODE :: bool
  run_converter :: converters
  tmp_png :: ustring
  missing_pdf_text :: ustring
  raster_error :: "ustring option"

definition libreoffice_hint :: ustring where
  "libreoffice_hint =
     ustr ''Preview generation failed due to PDF conversion issues.\<newline>\<newline>The preview requires PDF conversion, but LibreOffice is not available.\<newline>\<newline>To fix this:\<newline>1. Install LibreOffice from https://www.libreoffice.org/\<newline>2. Make sure it's added to your system PATH\<newline>3. Restart the application\<newline>\<newline>You can still export to DOCX format without preview.''"

definition no_method_hint :: ustring where
  "no_method_hint =
     ustr ''Preview generation failed - no PDF conversion method is available.\<newline>\<newline>To enable preview:\<newline>1. Install LibreOffice (recommended)\<newline>2. Or install Microsoft Word (Windows only)\<newline>3. Or install docx2pdf library\<newline>\<newline>You can still export to DOCX format without preview.''"

definition conversion_failed_text :: "ustring \<Rightarrow> ustring" where
  "conversion_failed_text error_msg =
     (if contains error_msg (ustr ''LibreOffice'') then libreoffice_hint
      else if contains error_msg (ustr ''All PDF conversion methods failed'') then no_method_hint
      else ustr ''Preview generation failed: '' @ error_msg)"

text \<open>
  The document the worker saves as \<open>preview.docx\<close>, from the template and the index of
  the marker.
\<close>

definition preview_document :: "preview_worker \<Rightarrow> nat \<Rightarrow> para list \<Rightarrow> para list" where
  "preview_document w idx_disc doc =
     preview_questions idx_disc (w_questions w)
       (replace_level_and_title (w_unit_title w) (w_level w) idx_disc doc)"

definition preview_run :: "preview_env \<Rightarrow> preview_worker \<Rightarrow> ustring \<Rightarrow> preview_signal list" where
  "preview_run E w pdf_method =
     (case deps_error E of
        Some e \<Rightarrow> [Sig_failed (ustr ''Preview deps missing: '' @ e)]
      | None \<Rightarrow>
          (case worker_template E of
             Missing \<Rightarrow> [Sig_failed (ustr ''Template not found.'')]
           | Unreadable e \<Rightarrow> [Sig_failed e]
           | Template doc \<Rightarrow>
               (case find_discussion doc of
                  None \<Rightarrow> [Sig_failed no_discussion_text]
                | Some idx_disc \<Rightarrow>
                    (case snd (if DEBUG_MODE E \<and> pdf_method \<noteq> ustr ''reportlab''
                               then convert_docx_to_pdf_with_method (run_converter E) pdf_method
                               else convert_docx_to_pdf (run_converter E)) of
                       Inl error_msg \<Rightarrow>
                         [Sig_failed (conversion_failed_text error_msg),
                          Sig_failed (missing_pdf_text E)]
                     | Inr u \<Rightarrow>
                         (case raster_error E of
                            Some e \<Rightarrow> [Sig_failed e]
                          | None \<Rightarrow> [Sig_done (w_key w) (tmp_png E)])))))"

section \<open>Sample inputs\<close>

definition sample_questions :: "ustring list" where
  "sample_questions = [ustr ''  What   is it?'', [], ustr ''   '', ustr ''Why?'']"

definition sample_answer :: ustring where
  "sample_answer =
     ustr ''1. What is  it?\<newline>- \"why\"?\<newline>3) WHY\"?\<newline>junk\<newline>* How so.?''"

definition idle :: updater where
  "idle = \<lparr>UPDATE_IN_PROGRESS = False, events = []\<rparr>"

definition manifest_new :: manifest where
  "manifest_new = \<lparr>m_version = Some (ustr ''1.0''), m_url = Some (ustr ''https://example.org/app.exe''),
     m_sha256 = Some (ustr ''AB12''), m_notes = None\<rparr>"

definition manifest_same :: manifest where
  "manifest_same = manifest_new\<lparr>m_version := Some (ustr ''0.23'')\<rparr>"

definition manifest_blank_sha :: manifest where
  "manifest_blank_sha = manifest_new\<lparr>m_sha256 := Some []\<rparr>"

definition env_update :: update_env where
  "env_update = \<lparr>fetch_manifest = Inr manifest_new, user_accepts = True, setup_error = None,
     sha256_of_file = (\<lambda>p. Inr (ustr ''ab12'')), replace_outcome = Exits\<rparr>"

definition env_same :: update_env where
  "env_same = env_update\<lparr>fetch_manifest := Inr manifest_same\<rparr>"

definition env_bad_digest :: update_env where
  "env_bad_digest = env_update\<lparr>sha256_of_file := (\<lambda>p. Inr (ustr ''ffff''))\<rparr>"

definition env_blank_sha :: update_env where
  "env_blank_sha = env_bad_digest\<lparr>fetch_manifest := Inr manifest_blank_sha\<rparr>"

text \<open>
  A manifest without the field \<open>sha256\<close>; a download that cannot be read; a manifest
  whose version is a run of 4301 digits.
\<close>

definition manifest_no_sha :: manifest where
  "manifest_no_sha = manifest_new\<lparr>m_sha256 := None\<rparr>"

definition env_no_sha :: update_env where
  "env_no_sha = env_bad_digest\<lparr>fetch_manifest := Inr manifest_no_sha\<rparr>"

definition env_unreadable :: update_env where
  "env_unreadable = env_update\<lparr>sha256_of_file := (\<lambda>p. Inl (ustr ''Permission denied''))\<rparr>"

definition manifest_long :: manifest where
  "manifest_long = manifest_new\<lparr>m_version := Some (replicate 4301 49)\<rparr>"

definition env_long :: update_env where
  "env_long = env_update\<lparr>fetch_manifest := Inr manifest_long\<rparr>"

text \<open>A machine on which the two libraries fail and the two applications would work.\<close>

definition office_only :: converters where
  "office_only c = (if c = ReportLab then Some (ustr ''ReportLab PDF generation failed: no font'')
                    else if c = Docx2pdf then Some (ustr ''docx2pdf did not create PDF'')
                    else None)"

definition docx2pdf_only :: converters where
  "docx2pdf_only c = (if c = Docx2pdf then None else Some (ustr ''not here''))"

text \<open>A window with three questions and its preview shown; a stand-in for SHA-1.\<close>

definition toy_sha1 :: "nat list \<Rightarrow> ustring" where
  "toy_sha1 bs = bs"

definition small_app :: app where
  "small_app =
     \<lparr>unit_title = ustr ''Food'', level = ustr ''B1'',
      questions = [ustr ''What do you eat?'', ustr ''Why?'', ustr ''Where?''],
      row_widgets = replicate 3 \<lparr>row_text = [], is_real_content = False, regen_indicator = False\<rparr>,
      preview_visible = True, preview_overlay = False, preview_pixmap = None,
      workers = [], next_worker = 0,
      files = (\<lambda>p. if p = ustr ''new.png'' \<or> p = ustr ''old.png'' then Some True else None),
      remove_refused = (\<lambda>p. False), boxes = []\<rparr>"

text \<open>
  The same window after the second question was changed, and with a picture that the
  system does not let go.
\<close>

definition edited_app :: app where
  "edited_app =
     small_app\<lparr>questions := [ustr ''What do you eat?'', ustr ''Why not?'', ustr ''Where?'']\<rparr>"

definition locked_app :: app where
  "locked_app = edited_app\<lparr>remove_refused := (\<lambda>p. p = ustr ''old.png'')\<rparr>"

text \<open>A template without the marker, one with it, and the inputs of an export and a preview.\<close>

definition template_no_marker :: "para list" where
  "template_no_marker =
     [\<lparr>p_style = ustr ''Title'', p_runs = [ustr ''LOOKING BACK'']\<rparr>,
      \<lparr>p_style = ustr ''Normal'', p_runs = [ustr ''Level '', ustr ''A1'']\<rparr>]"

definition template_marked :: "para list" where
  "template_marked =
     [\<lparr>p_style = ustr ''Title'', p_runs = [ustr ''LOOKING BACK'']\<rparr>,
      \<lparr>p_style = ustr ''Heading 2'', p_runs = [ustr '' Discussion '']\<rparr>,
      \<lparr>p_style = ustr ''List Number'', p_runs = [ustr ''1) '', ustr ''Old question?'']\<rparr>,
      \<lparr>p_style = ustr ''List Number'', p_runs = [ustr ''2) Another old question?'']\<rparr>]"

definition export_of :: "para list \<Rightarrow> export_env" where
  "export_of doc =
     \<lparr>save_path = ustr ''out.docx'', docx_import_error = None,
      template_path = ustr ''B2 templateee.docx'', template = Template doc, save_error = None\<rparr>"

definition preview_of :: "para list \<Rightarrow> preview_env" where
  "preview_of doc =
     \<lparr>deps_error = None, worker_template = Template doc, DEBUG_MODE = False,
      run_converter = (\<lambda>c. None), tmp_png = ustr ''preview.png'',
      missing_pdf_text = ustr ''no such file'', raster_error = None\<rparr>"

definition sample_worker :: preview_worker where
  "sample_worker =
     \<lparr>w_id = 0, w_key = ustr ''k1'', w_unit_title = ustr ''Food'', w_level = ustr ''B1'',
      w_questions = [ustr ''What do you eat?'']\<rparr>"

definition discussion_app :: app where
  "discussion_app = small_app\<lparr>unit_title := ustr ''Discussion''\<rparr>"

definition untitled_app :: app where
  "untitled_app = small_app\<lparr>unit_title := ustr ''  ''\<rparr>"

(*THEOREMS*)

section \<open>Whitespace: stripping and squeezing\<close>

lemma rmatch_star_only: "rmatch [Cls P Star False] n s = Some ([], dropWhile P s)"
  by (induction s arbitrary: n) auto

lemma rmatch_ws_plus:
  "rmatch ws_plus n (c # cs) = (if is_space c then Some ([], dropWhile is_space cs) else None)"
  by (simp add: ws_plus_def rmatch_star_only)

lemma drop_run: "drop (Suc (length cs) - length (dropWhile P cs)) (c # cs) = dropWhile P cs"
proof -
  have "length (takeWhile P cs) + length (dropWhile P cs) = length cs"
    by (metis length_append takeWhile_dropWhile_id)
  then have "Suc (length cs) - length (dropWhile P cs) = Suc (length (takeWhile P cs))"
    by arith
  then show ?thesis by (simp add: dropWhile_eq_drop)
qed

lemma re_sub_ws_Cons:
  "re_sub ws_plus [32] n (c # cs) =
     (if is_space c
      then 32 # re_sub ws_plus [32] (n + (Suc (length cs) - length (dropWhile is_space cs)))
                  (dropWhile is_space cs)
      else c # re_sub ws_plus [32] (Suc n) cs)"
  by (simp add: rmatch_ws_plus drop_run length_dropWhile_le)

text \<open>The pattern has no anchor, so the position does not matter.\<close>

lemma re_sub_ws_pos: "re_sub ws_plus [32] n s = re_sub ws_plus [32] 0 s"
proof (induction s arbitrary: n rule: length_induct)
  case (1 s)
  show ?case
  proof (cases s)
    case Nil
    then show ?thesis by simp
  next
    case (Cons c cs)
    have a: "length (dropWhile is_space cs) < length s"
      using Cons by (simp add: length_dropWhile_le le_imp_less_Suc)
    have b: "length cs < length s" using Cons by simp
    show ?thesis unfolding Cons re_sub_ws_Cons
      using 1[rule_format, OF a] 1[rule_format, OF b] by metis
  qed
qed

text \<open>\<open>re.sub(r"\s+", " ", s)\<close> turns every maximal run of whitespace into one space.\<close>

lemma squeeze_ws_Nil: "squeeze_ws [] = []"
  by (simp add: squeeze_ws_def)

lemma squeeze_ws_Cons:
  "squeeze_ws (c # cs) =
     (if is_space c then 32 # squeeze_ws (dropWhile is_space cs) else c # squeeze_ws cs)"
  unfolding squeeze_ws_def re_sub_ws_Cons using re_sub_ws_pos by metis

lemma qmark_not_space: "\<not> is_space 63"
  by (simp add: is_space_def)

lemma dropWhile_keeps_last:
  "s \<noteq> [] \<Longrightarrow> \<not> P (last s) \<Longrightarrow> dropWhile P s \<noteq> [] \<and> last (dropWhile P s) = last s"
  by (induction s) (auto split: if_splits)

lemma rstrip_of_id: "s = [] \<or> \<not> P (last s) \<Longrightarrow> rstrip_of P s = s"
  by (cases s rule: rev_cases) (auto simp: rstrip_of_def)

lemma lstrip_of_id: "s = [] \<or> \<not> P (hd s) \<Longrightarrow> lstrip_of P s = s"
  by (cases s) (auto simp: lstrip_of_def)

lemma rstrip_of_last: "rstrip_of P s \<noteq> [] \<Longrightarrow> \<not> P (last (rstrip_of P s))"
  unfolding rstrip_of_def
  by (metis (no_types, lifting) dropWhile_eq_Nil_conv hd_dropWhile last_rev rev_is_Nil_conv)

lemma rstrip_of_hd: "rstrip_of P s \<noteq> [] \<Longrightarrow> hd (rstrip_of P s) = hd s"
proof (induction s rule: rev_induct)
  case Nil
  then show ?case by (simp add: rstrip_of_def)
next
  case (snoc x xs)
  then show ?case by (cases xs) (auto simp: rstrip_of_def split: if_splits)
qed

lemma strip_of_ends:
  assumes "strip_of P s \<noteq> []"
  shows "\<not> P (hd (strip_of P s)) \<and> \<not> P (last (strip_of P s))"
proof -
  have d: "dropWhile P s \<noteq> []"
    using assms by (auto simp: strip_of_def rstrip_of_def lstrip_of_def dest: set_dropWhileD)
  have "hd (strip_of P s) = hd (dropWhile P s)"
    using assms rstrip_of_hd by (simp add: strip_of_def lstrip_of_def)
  moreover have "\<not> P (hd (dropWhile P s))" using d hd_dropWhile by blast
  moreover have "\<not> P (last (strip_of P s))"
    using assms rstrip_of_last by (simp add: strip_of_def)
  ultimately show ?thesis by simp
qed

lemma strip_of_id: "s = [] \<or> (\<not> P (hd s) \<and> \<not> P (last s)) \<Longrightarrow> strip_of P s = s"
  by (auto simp: strip_of_def lstrip_of_id rstrip_of_id)

lemma strip_of_last:
  "s \<noteq> [] \<Longrightarrow> \<not> P (last s) \<Longrightarrow> strip_of P s \<noteq> [] \<and> last (strip_of P s) = last s"
  using dropWhile_keeps_last[of s P] by (simp add: strip_of_def lstrip_of_def rstrip_of_id)

lemma endswith_single: "endswith s [c] \<longleftrightarrow> s \<noteq> [] \<and> last s = c"
proof (cases s rule: rev_cases)
  case Nil
  then show ?thesis by (simp add: endswith_def)
next
  case (snoc ys y)
  then show ?thesis by (simp add: endswith_def)
qed

lemma squeeze_ws_hd:
  "s \<noteq> [] \<Longrightarrow> \<not> is_space (hd s) \<Longrightarrow> squeeze_ws s \<noteq> [] \<and> hd (squeeze_ws s) = hd s"
  by (cases s) (auto simp: squeeze_ws_Cons)

lemma squeeze_ws_last:
  "s \<noteq> [] \<Longrightarrow> \<not> is_space (last s) \<Longrightarrow> squeeze_ws s \<noteq> [] \<and> last (squeeze_ws s) = last s"
proof (induction s rule: length_induct)
  case (1 s)
  then obtain c cs where s: "s = c # cs" by (cases s) auto
  show ?case
  proof (cases "cs = []")
    case True
    then show ?thesis using 1(3) s by (simp add: squeeze_ws_Cons squeeze_ws_Nil)
  next
    case False
    then have l: "\<not> is_space (last cs)" using 1(3) s by simp
    show ?thesis
    proof (cases "is_space c")
      case True
      let ?t = "dropWhile is_space cs"
      have t: "?t \<noteq> [] \<and> last ?t = last cs"
        using dropWhile_keeps_last[of cs is_space] False l by simp
      have "length ?t < length s" using s by (simp add: length_dropWhile_le le_imp_less_Suc)
      then have "squeeze_ws ?t \<noteq> [] \<and> last (squeeze_ws ?t) = last ?t"
        using 1(1) t l by auto
      then show ?thesis using True s t False by (simp add: squeeze_ws_Cons)
    next
      case nsp: False
      have "squeeze_ws cs \<noteq> [] \<and> last (squeeze_ws cs) = last cs"
        using 1(1) s False l by auto
      then show ?thesis using nsp s False by (simp add: squeeze_ws_Cons)
    qed
  qed
qed

lemma squeeze_ws_single_spaced:
  "s = [] \<or> \<not> is_space (last s) \<Longrightarrow> single_spaced (squeeze_ws s)"
proof (induction s rule: length_induct)
  case (1 s)
  show ?case
  proof (cases s)
    case Nil
    then show ?thesis by (simp add: squeeze_ws_Nil)
  next
    case (Cons c cs)
    show ?thesis
    proof (cases "cs = []")
      case True
      then show ?thesis using 1(2) Cons by (simp add: squeeze_ws_Cons squeeze_ws_Nil)
    next
      case False
      then have l: "\<not> is_space (last cs)" using 1(2) Cons by simp
      show ?thesis
      proof (cases "is_space c")
        case True
        let ?t = "dropWhile is_space cs"
        have t: "?t \<noteq> [] \<and> last ?t = last cs"
          using dropWhile_keeps_last[of cs is_space] False l by simp
        have h: "\<not> is_space (hd ?t)" using t hd_dropWhile by blast
        have "length ?t < length s"
          using Cons by (simp add: length_dropWhile_le le_imp_less_Suc)
        then have ih: "single_spaced (squeeze_ws ?t)" using 1(1) t l by auto
        have "squeeze_ws ?t \<noteq> [] \<and> hd (squeeze_ws ?t) = hd ?t"
          using squeeze_ws_hd t h by blast
        then show ?thesis using True Cons ih h by (simp add: squeeze_ws_Cons)
      next
        case nsp: False
        have "single_spaced (squeeze_ws cs)" using 1(1) Cons l by auto
        then show ?thesis using nsp Cons by (simp add: squeeze_ws_Cons)
      qed
    qed
  qed
qed

lemma single_spaced_squeeze: "single_spaced s \<Longrightarrow> squeeze_ws s = s"
proof (induction s)
  case Nil
  then show ?case by (simp add: squeeze_ws_Nil)
next
  case (Cons c cs)
  show ?case
  proof (cases "is_space c")
    case True
    then have "cs \<noteq> []" "\<not> is_space (hd cs)" "single_spaced cs" "c = 32"
      using Cons.prems by auto
    moreover then have "dropWhile is_space cs = cs" by (cases cs) auto
    ultimately show ?thesis using True Cons.IH by (simp add: squeeze_ws_Cons)
  next
    case False
    then show ?thesis using Cons by (simp add: squeeze_ws_Cons)
  qed
qed

lemma single_spaced_last: "single_spaced s \<Longrightarrow> s \<noteq> [] \<Longrightarrow> \<not> is_space (last s)"
  by (induction s) (auto split: if_splits)

lemma ws_normal_fix:
  assumes "ws_normal s"
  shows "squeeze_ws (strip s) = s"
proof -
  have "strip s = s"
    using assms single_spaced_last[of s] unfolding strip_def ws_normal_def
    by (intro strip_of_id) auto
  then show ?thesis using assms by (simp add: single_spaced_squeeze ws_normal_def)
qed

lemma normalise_ws_normal: "ws_normal (squeeze_ws (strip q))"
proof (cases "strip q = []")
  case True
  then show ?thesis by (simp add: ws_normal_def squeeze_ws_Nil)
next
  case False
  then have "\<not> is_space (hd (strip q)) \<and> \<not> is_space (last (strip q))"
    using strip_of_ends[of is_space q] by (simp add: strip_def)
  then show ?thesis
    using False squeeze_ws_hd[of "strip q"] squeeze_ws_single_spaced[of "strip q"]
    by (simp add: ws_normal_def)
qed

lemma normalise_nonempty: "strip q \<noteq> [] \<Longrightarrow> squeeze_ws (strip q) \<noteq> []"
  using strip_of_ends[of is_space q] squeeze_ws_hd[of "strip q"] by (simp add: strip_def)

lemma normalise_qmark:
  assumes "endswith q [63]"
  shows "endswith (squeeze_ws (strip q)) [63]"
proof -
  have q: "q \<noteq> []" "last q = 63" using assms by (auto simp: endswith_single)
  then have "strip q \<noteq> [] \<and> last (strip q) = 63"
    using strip_of_last[of q is_space] qmark_not_space by (simp add: strip_def)
  then show ?thesis
    using squeeze_ws_last[of "strip q"] qmark_not_space by (simp add: endswith_single)
qed

text \<open>Stripping and squeezing leave the words, one space apart.\<close>

lemma dropWhile_app:
  "dropWhile P (xs @ ys) = (if \<forall>x \<in> set xs. P x then dropWhile P ys else dropWhile P xs @ ys)"
  by (induction xs) auto

lemma strip_plain: "\<forall>c \<in> set w. \<not> is_space c \<Longrightarrow> strip w = w"
proof (cases w)
  case Nil
  then show ?thesis by (simp add: strip_def strip_of_def lstrip_of_def rstrip_of_def)
next
  case (Cons a as)
  assume "\<forall>c \<in> set w. \<not> is_space c"
  then have "\<not> is_space (hd w) \<and> \<not> is_space (last w)"
    using Cons last_in_set[of w] by fastforce
  then show ?thesis unfolding strip_def by (intro strip_of_id) simp
qed

lemma all_space_strip: "(\<forall>c \<in> set s. is_space c) \<longleftrightarrow> strip s = []"
proof
  assume "\<forall>c \<in> set s. is_space c"
  then have "dropWhile is_space s = []" by (simp add: dropWhile_eq_Nil_conv)
  then show "strip s = []"
    by (simp only: strip_def strip_of_def lstrip_of_def rstrip_of_def rev.simps dropWhile.simps)
next
  assume a: "strip s = []"
  show "\<forall>c \<in> set s. is_space c"
  proof (rule ccontr)
    assume "\<not> (\<forall>c \<in> set s. is_space c)"
    then have d: "dropWhile is_space s \<noteq> []" by (simp add: dropWhile_eq_Nil_conv)
    then have "\<not> is_space (hd (dropWhile is_space s))" using hd_dropWhile by blast
    then have "\<not> (\<forall>c \<in> set (rev (dropWhile is_space s)). is_space c)"
      using d by (metis hd_in_set set_rev)
    then have "dropWhile is_space (rev (dropWhile is_space s)) \<noteq> []"
      by (simp add: dropWhile_eq_Nil_conv del: set_rev)
    then show False using a by (simp add: strip_def strip_of_def lstrip_of_def rstrip_of_def)
  qed
qed

lemma all_space_rstrip: "(\<forall>c \<in> set s. is_space c) \<longleftrightarrow> rstrip s = []"
  by (auto simp: rstrip_def rstrip_of_def dropWhile_eq_Nil_conv)

lemma rstrip_space_Cons:
  "rstrip (c # cs) = (if \<forall>x \<in> set cs. is_space x then (if is_space c then [] else [c]) else c # rstrip cs)"
  by (simp add: rstrip_def rstrip_of_def dropWhile_app)

lemma squeeze_ws_plain: "\<forall>c \<in> set w. \<not> is_space c \<Longrightarrow> squeeze_ws (w @ s) = w @ squeeze_ws s"
  by (induction w) (auto simp: squeeze_ws_Cons)

lemma strip_space_Cons: "is_space c \<Longrightarrow> strip (c # cs) = strip cs"
  by (simp add: strip_def strip_of_def lstrip_of_def)

lemma strip_Nil: "strip [] = []"
  by (simp add: strip_def strip_of_def lstrip_of_def rstrip_of_def)

lemma strip_plain_app:
  assumes "w \<noteq> []" and "\<forall>c \<in> set w. \<not> is_space c"
  shows "strip (w @ s) = w @ rstrip s"
proof -
  have "\<not> is_space (hd w)" using assms by (cases w) auto
  then have l: "dropWhile is_space (w @ s) = w @ s" using assms(1) by (cases w) auto
  have "\<not> is_space (last w)" using assms by simp
  then have "dropWhile is_space (rev w) = rev w"
    using assms(1) by (cases w rule: rev_cases) auto
  then have "dropWhile is_space (rev s @ rev w) = dropWhile is_space (rev s) @ rev w"
    by (simp add: dropWhile_app dropWhile_eq_Nil_conv)
  then show ?thesis
    using l by (simp add: strip_def strip_of_def lstrip_of_def rstrip_of_def rstrip_def)
qed

lemma rstrip_Nil_iff: "rstrip s = [] \<longleftrightarrow> strip s = []"
  using all_space_strip all_space_rstrip by blast

lemma dropWhile_rstrip: "dropWhile is_space (rstrip s) = strip s"
proof (induction s)
  case Nil
  then show ?case by (simp add: rstrip_def rstrip_of_def strip_Nil)
next
  case (Cons c cs)
  show ?case
  proof (cases "is_space c")
    case True
    show ?thesis
    proof (cases "\<forall>x \<in> set cs. is_space x")
      case all: True
      then have "strip (c # cs) = []" using True all_space_strip[of "c # cs"] by simp
      then show ?thesis using all True by (simp add: rstrip_space_Cons)
    next
      case False
      then have "rstrip (c # cs) = c # rstrip cs" by (auto simp: rstrip_space_Cons)
      then show ?thesis using True Cons by (simp add: strip_space_Cons)
    qed
  next
    case False
    have "strip (c # cs) = rstrip (c # cs)"
      using False by (simp add: strip_def strip_of_def lstrip_of_def rstrip_def)
    then show ?thesis using False by (simp add: rstrip_space_Cons)
  qed
qed

lemma words_from_nonempty: "[] \<notin> set (words_from v t)"
  by (induction t arbitrary: v) auto

lemma join_spaced_Nil: "[] \<notin> set ws \<Longrightarrow> join_spaced ws = [] \<Longrightarrow> ws = []"
  by (cases ws rule: join_spaced.cases) auto

lemma words_from_join:
  "\<forall>c \<in> set w. \<not> is_space c \<Longrightarrow> join_spaced (words_from w s) = squeeze_ws (strip (w @ s))"
proof (induction s arbitrary: w)
  case Nil
  have "squeeze_ws w = w" using squeeze_ws_plain[of w "[]"] Nil by (simp add: squeeze_ws_Nil)
  then show ?case using strip_plain[OF Nil] by simp
next
  case (Cons c cs)
  show ?case
  proof (cases "is_space c")
    case False
    then have "join_spaced (words_from w (c # cs)) = squeeze_ws (strip ((w @ [c]) @ cs))"
      using Cons by simp
    then show ?thesis by simp
  next
    case True
    have ih: "join_spaced (words_from [] cs) = squeeze_ws (strip cs)"
      using Cons.IH[of "[]"] by simp
    show ?thesis
    proof (cases "w = []")
      case wn: True
      then show ?thesis using True ih by (simp add: strip_space_Cons)
    next
      case wne: False
      have s: "strip (w @ c # cs) = w @ rstrip (c # cs)"
        using strip_plain_app[OF wne Cons.prems] .
      have pl: "squeeze_ws w = w"
        using squeeze_ws_plain[of w "[]"] Cons.prems by (simp add: squeeze_ws_Nil)
      show ?thesis
      proof (cases "strip cs = []")
        case e: True
        then have a: "\<forall>x \<in> set cs. is_space x" using all_space_strip by blast
        have "join_spaced (words_from [] cs) = []" using ih e by (simp add: squeeze_ws_Nil)
        then have "words_from [] cs = []" using join_spaced_Nil words_from_nonempty by blast
        then show ?thesis using True wne s a pl by (simp add: rstrip_space_Cons)
      next
        case ne: False
        then have a: "\<not> (\<forall>x \<in> set cs. is_space x)" using all_space_strip by blast
        have "squeeze_ws (strip (w @ c # cs)) = w @ squeeze_ws (c # rstrip cs)"
          using s a squeeze_ws_plain[OF Cons.prems] by (simp add: rstrip_space_Cons)
        also have "\<dots> = w @ 32 # squeeze_ws (strip cs)"
          using True by (simp add: squeeze_ws_Cons dropWhile_rstrip)
        finally have rhs: "squeeze_ws (strip (w @ c # cs)) = w @ 32 # squeeze_ws (strip cs)" .
        have "words_from [] cs \<noteq> []"
          using ih ne normalise_nonempty[of cs] by auto
        then obtain v vs where "words_from [] cs = v # vs" by (cases "words_from [] cs") auto
        then have "join_spaced (w # words_from [] cs) = w @ 32 # join_spaced (words_from [] cs)"
          by simp
        then show ?thesis using True wne ih rhs by simp
      qed
    qed
  qed
qed

lemma normalise_words: "squeeze_ws (strip q) = join_spaced (words_of q)"
  using words_from_join[of "[]" q] by (simp add: words_of_def)

section \<open>The padded list\<close>

lemma pad_15_eq: "pad_15 qs = qs @ replicate (15 - length qs) fallback_question"
proof (induction qs rule: pad_15.induct)
  case (1 qs)
  show ?case
  proof (cases "length qs < 15")
    case True
    then have "15 - length qs = Suc (15 - length (qs @ [fallback_question]))" by simp
    then show ?thesis
      using 1 True by (subst pad_15.simps) (simp add: replicate_app_Cons_same)
  next
    case False
    then show ?thesis by (subst pad_15.simps) simp
  qed
qed

lemma fallback_ws_normal: "ws_normal fallback_question"
  by (simp add: fallback_question_def ustr_def ws_normal_def is_space_def)

lemma fallback_nonempty: "fallback_question \<noteq> []"
  by (simp add: fallback_question_def ustr_def)

lemma fallback_qmark: "endswith fallback_question [63]"
  by (simp add: fallback_question_def ustr_def endswith_def)

lemma ensure_15_eq:
  "ensure_15 qs =
     take 15 (map (\<lambda>q. squeeze_ws (strip q)) (filter (\<lambda>q. strip q \<noteq> []) qs))
     @ replicate (15 - length (filter (\<lambda>q. strip q \<noteq> []) qs)) fallback_question"
proof -
  let ?kept = "map (\<lambda>q. squeeze_ws (strip q)) (filter (\<lambda>q. strip q \<noteq> []) qs)"
  have "(if length ?kept > 15 then take 15 ?kept else ?kept) = take 15 ?kept" by simp
  then have "ensure_15 qs = pad_15 (take 15 ?kept)" by (simp add: ensure_15_def Let_def)
  also have "\<dots> = take 15 ?kept @ replicate (15 - length (take 15 ?kept)) fallback_question"
    by (rule pad_15_eq)
  also have "15 - length (take 15 ?kept) = 15 - length (filter (\<lambda>q. strip q \<noteq> []) qs)"
    by simp
  finally show ?thesis .
qed

lemma sample_kept:
  "map (\<lambda>q. squeeze_ws (strip q)) (filter (\<lambda>q. strip q \<noteq> []) sample_questions)
     = [ustr ''What is it?'', ustr ''Why?'']"
  by (simp add: sample_questions_def ustr_def strip_def strip_of_def rstrip_of_def
      lstrip_of_def is_space_def squeeze_ws_Cons squeeze_ws_Nil)

lemma sample_eval:
  "ensure_15 sample_questions =
     ustr ''What is it?'' # ustr ''Why?'' # replicate 13 fallback_question"
proof -
  have "length (filter (\<lambda>q. strip q \<noteq> []) sample_questions) = 2"
    using arg_cong[OF sample_kept, of length] by simp
  then show ?thesis unfolding ensure_15_eq sample_kept by simp
qed

text \<open>
  Claim C1.  For every list of strings \<open>qs\<close>, \<open>_ensure_15(qs)\<close> has exactly 15 entries:
  the entries of \<open>qs\<close> that are not blank (not empty once stripped), each stripped and
  with every run of whitespace squeezed to one space, in their order, cut after the
  fifteenth, then the fallback question as often as needed to reach 15.  Every
  normalized entry has no whitespace at its ends and single spaces only inside: it is
  the words of the entry with one space between them.  If every
  entry of \<open>qs\<close> that is not blank ends with a question mark, so does every entry of the
  result.
\<close>

theorem ensure_15_correct:
  "length (ensure_15 qs) = 15
   \<and> ensure_15 qs =
       take 15 (map (\<lambda>q. squeeze_ws (strip q)) (filter (\<lambda>q. strip q \<noteq> []) qs))
       @ replicate (15 - length (filter (\<lambda>q. strip q \<noteq> []) qs)) fallback_question
   \<and> (\<forall>q. ws_normal (squeeze_ws (strip q))
          \<and> squeeze_ws (strip q) = join_spaced (words_of q))
   \<and> ((\<forall>q \<in> set qs. strip q \<noteq> [] \<longrightarrow> endswith q [63])
        \<longrightarrow> (\<forall>e \<in> set (ensure_15 qs). endswith e [63]))"
proof -
  let ?kept = "map (\<lambda>q. squeeze_ws (strip q)) (filter (\<lambda>q. strip q \<noteq> []) qs)"
  have len: "length (ensure_15 qs) = 15" by (simp add: ensure_15_eq)
  have q: "\<forall>e \<in> set (ensure_15 qs). endswith e [63]"
    if h: "\<forall>q \<in> set qs. strip q \<noteq> [] \<longrightarrow> endswith q [63]"
  proof
    fix e
    assume "e \<in> set (ensure_15 qs)"
    then have "e \<in> set (take 15 ?kept) \<or> e = fallback_question"
      by (auto simp: ensure_15_eq)
    then show "endswith e [63]"
    proof
      assume "e \<in> set (take 15 ?kept)"
      then have "e \<in> set ?kept" by (rule in_set_takeD)
      then obtain q where "q \<in> set qs" "strip q \<noteq> []" "e = squeeze_ws (strip q)" by auto
      then show ?thesis using h normalise_qmark by blast
    next
      assume "e = fallback_question"
      then show ?thesis by (simp add: fallback_qmark)
    qed
  qed
  show ?thesis using len q ensure_15_eq normalise_ws_normal normalise_words by blast
qed

theorem ensure_15_correct_witness:
  "list_all (\<lambda>q. strip q = [] \<or> endswith q [63]) sample_questions
   \<and> length (ensure_15 sample_questions) = 15
   \<and> list_all (\<lambda>e. endswith e [63]) (ensure_15 sample_questions)
   \<and> ensure_15 sample_questions =
       ustr ''What is it?'' # ustr ''Why?'' # replicate 13 fallback_question"
proof -
  have h: "\<forall>q \<in> set sample_questions. strip q \<noteq> [] \<longrightarrow> endswith q [63]"
    by (simp add: sample_questions_def ustr_def strip_def strip_of_def rstrip_of_def
        lstrip_of_def is_space_def endswith_def)
  then have "list_all (\<lambda>q. strip q = [] \<or> endswith q [63]) sample_questions"
    by (auto simp: list_all_iff)
  moreover have "length (ensure_15 sample_questions) = 15
      \<and> (\<forall>e \<in> set (ensure_15 sample_questions). endswith e [63])"
    using ensure_15_correct[of sample_questions] h by blast
  ultimately show ?thesis using sample_eval by (simp add: list_all_iff)
qed

lemma ensure_15_fix:
  assumes "length xs = 15" and "\<forall>e \<in> set xs. ws_normal e \<and> e \<noteq> []"
  shows "ensure_15 xs = xs"
proof -
  have s: "\<forall>e \<in> set xs. squeeze_ws (strip e) = e" using assms(2) ws_normal_fix by blast
  have t: "\<forall>e \<in> set xs. strip e \<noteq> []"
  proof
    fix e
    assume "e \<in> set xs"
    then have "squeeze_ws (strip e) = e" "e \<noteq> []" using s assms(2) by auto
    then show "strip e \<noteq> []" using squeeze_ws_Nil by fastforce
  qed
  have "filter (\<lambda>q. strip q \<noteq> []) xs = xs" using t by (simp add: filter_id_conv)
  moreover have "map (\<lambda>q. squeeze_ws (strip q)) xs = xs" using s by (simp add: map_idI)
  ultimately show ?thesis using assms(1) by (simp add: ensure_15_eq)
qed

text \<open>
  Claim C10.  \<open>_ensure_15\<close> is idempotent: applied to its own result it returns that
  result, since each of its 15 entries is not blank and already normalized.
\<close>

theorem ensure_15_idempotent: "ensure_15 (ensure_15 qs) = ensure_15 qs"
proof (rule ensure_15_fix)
  show "length (ensure_15 qs) = 15" by (simp add: ensure_15_eq)
  show "\<forall>e \<in> set (ensure_15 qs). ws_normal e \<and> e \<noteq> []"
  proof
    fix e
    assume "e \<in> set (ensure_15 qs)"
    then have "e \<in> set (map (\<lambda>q. squeeze_ws (strip q)) (filter (\<lambda>q. strip q \<noteq> []) qs))
        \<or> e = fallback_question"
      by (auto simp: ensure_15_eq dest: in_set_takeD)
    then show "ws_normal e \<and> e \<noteq> []"
      using normalise_ws_normal normalise_nonempty fallback_ws_normal fallback_nonempty
      by auto
  qed
qed

theorem ensure_15_idempotent_witness:
  "ensure_15 (ensure_15 sample_questions) =
     ustr ''What is it?'' # ustr ''Why?'' # replicate 13 fallback_question"
  using ensure_15_idempotent[of sample_questions] sample_eval by simp

section \<open>The parser of the answer\<close>

lemma grow_group_length: "length (fst (grow_group cap c m)) = length (fst m)"
  by (cases "(cap, c, m)" rule: grow_group.cases) auto

lemma open_group_length: "length (fst (open_group cap m)) = (if cap then Suc (length (fst m)) else length (fst m))"
  by (cases m) auto

lemma rmatch_ngroups: "rmatch p n s = Some m \<Longrightarrow> length (fst m) = ngroups p"
proof (induction p n s arbitrary: m rule: rmatch.induct)
  case (1 n s) then show ?case by auto
next
  case (2 p n s) then show ?case by (simp split: if_splits)
next
  case (3 p n s) then show ?case by (simp split: if_splits)
next
  case (4 P cap p n) then show ?case by simp
next
  case (5 P cap p n c cs)
  from 5(2) obtain m' where m': "P c" "rmatch p (Suc n) cs = Some m'"
      "m = grow_group cap c (open_group cap m')"
    by (auto split: if_splits)
  have "length (fst m') = ngroups p" using 5(1) m' by blast
  then show ?case using m'(3) by (simp add: grow_group_length open_group_length)
next
  case (6 P cap p n)
  then show ?case by (auto split: if_splits simp: open_group_length)
next
  case (7 P cap p n c cs)
  then show ?case by (auto split: if_splits option.splits simp: grow_group_length open_group_length)
next
  case (8 P cap p n) then show ?case by simp
next
  case (9 P cap p n c cs)
  then show ?case by (auto split: if_splits simp: grow_group_length)
qed


lemma numbered_two_groups:
  "re_match (numbered_line U) s = Some gs \<Longrightarrow> \<exists>g1 g2. gs = [g1, g2]"
proof -
  assume "re_match (numbered_line U) s = Some gs"
  then obtain m where "rmatch (numbered_line U) 0 s = Some m" "gs = fst m"
    by (auto simp: re_match_def)
  then have "length gs = 2" using rmatch_ngroups[of "numbered_line U" 0 s m]
    by (simp add: numbered_line_def)
  then show ?thesis by (metis (no_types) length_0_conv length_Suc_conv numeral_2_eq_2)
qed

lemma bulleted_one_group:
  "re_match bulleted_line s = Some gs \<Longrightarrow> \<exists>g. gs = [g]"
proof -
  assume "re_match bulleted_line s = Some gs"
  then obtain m where "rmatch bulleted_line 0 s = Some m" "gs = fst m"
    by (auto simp: re_match_def)
  then have "length gs = 1" using rmatch_ngroups[of bulleted_line 0 s m]
    by (simp add: bulleted_line_def)
  then show ?thesis by (metis (no_types) length_0_conv length_Suc_conv One_nat_def)
qed

text \<open>The loop body as the source has it: group 2 of the first pattern, else group 1 of the second.\<close>

lemma line_item_eq:
  "line_item U line =
     (case re_match (numbered_line U) (strip line) of
        Some gs \<Rightarrow> Some (strip (gs ! 1) @ [63])
      | None \<Rightarrow>
          (case re_match bulleted_line (strip line) of
             Some gs \<Rightarrow> Some (strip (gs ! 0) @ [63])
           | None \<Rightarrow> None))"
proof (cases "re_match (numbered_line U) (strip line)")
  case None
  show ?thesis
  proof (cases "re_match bulleted_line (strip line)")
    case n2: None
    then show ?thesis using None by (simp add: line_item_def)
  next
    case (Some gs)
    then obtain g where "gs = [g]" using bulleted_one_group by blast
    then show ?thesis using None Some by (simp add: line_item_def)
  qed
next
  case (Some gs)
  then obtain g1 g2 where "gs = [g1, g2]" using numbered_two_groups by blast
  then show ?thesis using Some by (simp add: line_item_def)
qed

lemma scan_lines_eq: "scan_lines U ls out = out @ List.map_filter (line_item U) ls"
  by (induction ls arbitrary: out) (auto simp: List.map_filter_simps split: option.splits)

lemma scan_parts_eq:
  "scan_parts cs out = out @ filter (\<lambda>c. endswith c [63]) (map strip cs)"
  by (induction cs arbitrary: out) auto

lemma candidates_eq:
  "candidates U text =
     (if List.map_filter (line_item U) (splitlines text) = []
      then filter (\<lambda>c. endswith c [63]) (map strip (re_split (number_marker U) 0 [] text))
      else List.map_filter (line_item U) (splitlines text))"
  by (simp add: candidates_def Let_def scan_lines_eq scan_parts_eq)

lemma tidy_qmark: "endswith (tidy q) [63]"
  by (simp add: tidy_def Let_def endswith_single)

lemma dedup_length: "length (dedup U qs clean seen) \<le> length clean + length qs"
proof (induction qs arbitrary: clean seen)
  case Nil
  then show ?case by simp
next
  case (Cons q qs)
  show ?case
  proof (cases "lower U (tidy q) \<in> seen")
    case True
    then show ?thesis using Cons[of clean seen] by simp
  next
    case False
    then show ?thesis
      using Cons[of "clean @ [tidy q]" "insert (lower U (tidy q)) seen"] by simp
  qed
qed

lemma dedup_set: "set (dedup U qs clean seen) \<subseteq> set clean \<union> tidy ` set qs"
proof (induction qs arbitrary: clean seen)
  case Nil then show ?case by simp
next
  case (Cons q qs)
  show ?case
  proof (cases "lower U (tidy q) \<in> seen")
    case True
    then show ?thesis using Cons[of clean seen] by auto
  next
    case False
    then show ?thesis using Cons[of "clean @ [tidy q]" "insert (lower U (tidy q)) seen"] by auto
  qed
qed

lemma dedup_distinct:
  "seen = set (map (lower U) clean) \<Longrightarrow> distinct (map (lower U) clean)
   \<Longrightarrow> distinct (map (lower U) (dedup U qs clean seen))"
proof (induction qs arbitrary: clean seen)
  case Nil then show ?case by simp
next
  case (Cons q qs)
  show ?case
  proof (cases "lower U (tidy q) \<in> seen")
    case True
    then show ?thesis using Cons by simp
  next
    case False
    have "distinct (map (lower U) (clean @ [tidy q]))" using False Cons.prems by auto
    moreover have "insert (lower U (tidy q)) seen = set (map (lower U) (clean @ [tidy q]))"
      using Cons.prems by auto
    ultimately have "distinct (map (lower U)
        (dedup U qs (clean @ [tidy q]) (insert (lower U (tidy q)) seen)))"
      by (rule Cons.IH[rotated])
    then show ?thesis using False by simp
  qed
qed

lemma slice_to_length: "0 \<le> n \<Longrightarrow> int (length (slice_to n xs)) \<le> n"
  by (simp add: slice_to_def)

lemma slice_to_set: "set (slice_to n xs) \<subseteq> set xs"
  by (auto simp: slice_to_def dest: in_set_takeD)

text \<open>
  The matcher agrees with the reading of the patterns: it succeeds exactly on the strings
  that have an accepted segmentation, and what it returns is one.
\<close>

lemma grow_open: "grow_group cap c (open_group cap m) = (if cap then [c] # fst m else fst m, snd m)"
  by (cases m; cases "fst m") auto

lemma open_eq: "open_group cap m = (if cap then [] # fst m else fst m, snd m)"
  by (cases m) auto

lemma grow_groups:
  "grow_group cap c (groups (Cls P q cap # p) (seg # segs), r)
     = (groups (Cls P q cap # p) ((c # seg) # segs), r)"
  by (cases "groups p segs") auto

lemma rmatch_sound:
  "rmatch p n s = Some m \<Longrightarrow>
   \<exists>segs. accepts p n segs (snd m) \<and> concat segs @ snd m = s \<and> fst m = groups p segs"
proof (induction p n s arbitrary: m rule: rmatch.induct)
  case (1 n s)
  then have "accepts [] n [] (snd m) \<and> concat [] @ snd m = s \<and> fst m = groups [] []" by auto
  then show ?case by blast
next
  case (2 p n s)
  then have n: "n = 0" and r: "rmatch p n s = Some m" by (auto split: if_splits)
  from 2(1)[OF n r] obtain segs where
    "accepts p n segs (snd m)" "concat segs @ snd m = s" "fst m = groups p segs" by blast
  then have "accepts (Bol # p) n ([] # segs) (snd m) \<and> concat ([] # segs) @ snd m = s
      \<and> fst m = groups (Bol # p) ([] # segs)"
    using n by simp
  then show ?case by blast
next
  case (3 p n s)
  then have e: "s = [] \<or> s = [10]" and r: "rmatch p n s = Some m" by (auto split: if_splits)
  from 3(1)[OF e r] obtain segs where
    "accepts p n segs (snd m)" "concat segs @ snd m = s" "fst m = groups p segs" by blast
  then have "accepts (Eol # p) n ([] # segs) (snd m) \<and> concat ([] # segs) @ snd m = s
      \<and> fst m = groups (Eol # p) ([] # segs)"
    using e by simp
  then show ?case by blast
next
  case (4 P cap p n)
  then show ?case by simp
next
  case (5 P cap p n c cs)
  from 5(2) obtain m' where m': "P c" "rmatch p (Suc n) cs = Some m'"
      "m = grow_group cap c (open_group cap m')"
    by (auto split: if_splits)
  from 5(1)[OF m'(1) m'(2)] obtain segs where
    s: "accepts p (Suc n) segs (snd m')" "concat segs @ snd m' = cs" "fst m' = groups p segs"
    by blast
  have "accepts (Cls P Once cap # p) n ([c] # segs) (snd m)
      \<and> concat ([c] # segs) @ snd m = c # cs
      \<and> fst m = groups (Cls P Once cap # p) ([c] # segs)"
    using s m' by (simp add: grow_open)
  then show ?case by blast
next
  case (6 P cap p n)
  from 6(2) obtain m' where m': "rmatch p n [] = Some m'" "m = open_group cap m'" by auto
  from 6(1)[OF m'(1)] obtain segs where
    s: "accepts p n segs (snd m')" "concat segs @ snd m' = []" "fst m' = groups p segs"
    by blast
  have "accepts (Cls P Star cap # p) n ([] # segs) (snd m)
      \<and> concat ([] # segs) @ snd m = []
      \<and> fst m = groups (Cls P Star cap # p) ([] # segs)"
    using s m' by (simp add: open_eq)
  then show ?case by blast
next
  case (7 P cap p n c cs)
  show ?case
  proof (cases "P c \<and> rmatch (Cls P Star cap # p) (Suc n) cs \<noteq> None")
    case True
    then obtain m' where m': "rmatch (Cls P Star cap # p) (Suc n) cs = Some m'" by auto
    then have m: "m = grow_group cap c m'" using 7(4) True by simp
    from 7(1)[OF _ m'] True obtain segs where
      s: "accepts (Cls P Star cap # p) (Suc n) segs (snd m')" "concat segs @ snd m' = cs"
         "fst m' = groups (Cls P Star cap # p) segs"
      by blast
    then obtain seg segs' where sg: "segs = seg # segs'" by (cases segs) auto
    have "m' = (groups (Cls P Star cap # p) (seg # segs'), snd m')"
      using s(3) sg by (simp add: prod_eq_iff)
    then have "m = (groups (Cls P Star cap # p) ((c # seg) # segs'), snd m')"
      using m grow_groups[of cap c P Star p seg segs' "snd m'"] by simp
    then have "accepts (Cls P Star cap # p) n ((c # seg) # segs') (snd m)
        \<and> concat ((c # seg) # segs') @ snd m = c # cs
        \<and> fst m = groups (Cls P Star cap # p) ((c # seg) # segs')"
      using s sg True by simp
    then show ?thesis by blast
  next
    case False
    then obtain m' where m': "rmatch p n (c # cs) = Some m'" "m = open_group cap m'"
      using 7(4) by (auto split: if_splits option.splits)
    have "\<exists>segs. accepts p n segs (snd m') \<and> concat segs @ snd m' = c # cs
        \<and> fst m' = groups p segs"
    proof (cases "P c")
      case True
      then have "rmatch (Cls P Star cap # p) (Suc n) cs = None" using False by blast
      from 7(2)[OF True this m'(1)] show ?thesis .
    next
      case nP: False
      from 7(3)[OF nP m'(1)] show ?thesis .
    qed
    then obtain segs where
      s: "accepts p n segs (snd m')" "concat segs @ snd m' = c # cs" "fst m' = groups p segs"
      by blast
    have "accepts (Cls P Star cap # p) n ([] # segs) (snd m)
        \<and> concat ([] # segs) @ snd m = c # cs
        \<and> fst m = groups (Cls P Star cap # p) ([] # segs)"
      using s m' by (simp add: open_eq)
    then show ?thesis by blast
  qed
next
  case (8 P cap p n)
  then show ?case by simp
next
  case (9 P cap p n c cs)
  from 9(2) obtain m' where m': "P c" "rmatch (Cls P Star cap # p) (Suc n) cs = Some m'"
      "m = grow_group cap c m'"
    by (auto split: if_splits)
  from 9(1)[OF m'(1) m'(2)] obtain segs where
    s: "accepts (Cls P Star cap # p) (Suc n) segs (snd m')" "concat segs @ snd m' = cs"
       "fst m' = groups (Cls P Star cap # p) segs"
    by blast
  then obtain seg segs' where sg: "segs = seg # segs'" by (cases segs) auto
  have "m' = (groups (Cls P Star cap # p) (seg # segs'), snd m')"
    using s(3) sg by (simp add: prod_eq_iff)
  then have "m = (groups (Cls P Plus cap # p) ((c # seg) # segs'), snd m')"
    using m'(3) grow_groups[of cap c P Star p seg segs' "snd m'"] by simp
  then have "accepts (Cls P Plus cap # p) n ((c # seg) # segs') (snd m)
      \<and> concat ((c # seg) # segs') @ snd m = c # cs
      \<and> fst m = groups (Cls P Plus cap # p) ((c # seg) # segs')"
    using s sg m'(1) by simp
  then show ?case by blast
qed

lemma star_complete:
  "list_all P seg \<Longrightarrow> \<exists>m. rmatch p (n + length seg) rest = Some m \<Longrightarrow>
   \<exists>m. rmatch (Cls P Star cap # p) n (seg @ rest) = Some m"
proof (induction seg arbitrary: n)
  case Nil
  then obtain m where m: "rmatch p n rest = Some m" by auto
  show ?case
  proof (cases rest)
    case Nil
    then show ?thesis using m by simp
  next
    case (Cons c cs)
    then show ?thesis using m by (cases "rmatch (Cls P Star cap # p) (Suc n) cs") auto
  qed
next
  case (Cons c seg)
  then have "\<exists>m. rmatch p (Suc n + length seg) rest = Some m" by simp
  then have "\<exists>m. rmatch (Cls P Star cap # p) (Suc n) (seg @ rest) = Some m"
    using Cons.IH[of "Suc n"] Cons.prems(1) by simp
  then show ?case using Cons.prems(1) by auto
qed

lemma rmatch_complete:
  "accepts p n segs r \<Longrightarrow> \<exists>m. rmatch p n (concat segs @ r) = Some m"
proof (induction p arbitrary: n segs r)
  case Nil
  then show ?case by (cases segs) auto
next
  case (Cons a p)
  then obtain seg segs' where sg: "segs = seg # segs'" by (cases segs; cases a) auto
  show ?case
  proof (cases a)
    case Bol
    then have "accepts p n segs' r" "seg = []" "n = 0" using Cons.prems sg by auto
    then show ?thesis using Cons.IH[of n segs' r] Bol sg by simp
  next
    case Eol
    then have "accepts p n segs' r" "seg = []" "concat segs' @ r = [] \<or> concat segs' @ r = [10]"
      using Cons.prems sg by auto
    then show ?thesis using Cons.IH[of n segs' r] Eol sg by auto
  next
    case (Cls P q cap)
    show ?thesis
    proof (cases q)
      case Once
      then have a: "length seg = 1" "list_all P seg" "accepts p (Suc n) segs' r"
        using Cons.prems sg Cls by auto
      then obtain c where c: "seg = [c]" by (cases seg) auto
      obtain m where "rmatch p (Suc n) (concat segs' @ r) = Some m"
        using Cons.IH[OF a(3)] by blast
      then show ?thesis using a(2) c Cls Once sg by simp
    next
      case Star
      then have a: "list_all P seg" "accepts p (n + length seg) segs' r"
        using Cons.prems sg Cls by auto
      have "\<exists>m. rmatch p (n + length seg) (concat segs' @ r) = Some m"
        using Cons.IH[OF a(2)] .
      then show ?thesis using star_complete[OF a(1)] Cls Star sg by simp
    next
      case Plus
      then have a: "seg \<noteq> []" "list_all P seg" "accepts p (n + length seg) segs' r"
        using Cons.prems sg Cls by auto
      then obtain c seg' where c: "seg = c # seg'" by (cases seg) auto
      have "\<exists>m. rmatch p (Suc n + length seg') (concat segs' @ r) = Some m"
        using Cons.IH[OF a(3)] c by simp
      then have "\<exists>m. rmatch (Cls P Star cap # p) (Suc n) (seg' @ concat segs' @ r) = Some m"
        using star_complete[of P seg' p "Suc n"] a(2) c by simp
      then show ?thesis using a(2) c Cls Plus sg by auto
    qed
  qed
qed

text \<open>A match exists exactly when the pattern accepts the input, atom by atom.\<close>

lemma rmatch_iff:
  "(\<exists>m. rmatch p n s = Some m) \<longleftrightarrow> (\<exists>segs r. accepts p n segs r \<and> concat segs @ r = s)"
  using rmatch_sound rmatch_complete by blast

lemma accepts_Nil_iff: "accepts [] n segs r \<longleftrightarrow> segs = []"
  by (cases segs) auto

lemma accepts_Bol_iff:
  "accepts (Bol # p) n segs r \<longleftrightarrow> (\<exists>segs'. segs = [] # segs' \<and> n = 0 \<and> accepts p n segs' r)"
  by (cases segs) auto

lemma accepts_Eol_iff:
  "accepts (Eol # p) n segs r \<longleftrightarrow>
     (\<exists>segs'. segs = [] # segs' \<and> (concat segs' @ r = [] \<or> concat segs' @ r = [10])
        \<and> accepts p n segs' r)"
  by (cases segs) auto

lemma accepts_Once_iff:
  "accepts (Cls P Once cap # p) n segs r \<longleftrightarrow>
     (\<exists>c segs'. segs = [c] # segs' \<and> P c \<and> accepts p (Suc n) segs' r)"
proof (cases segs)
  case Nil
  then show ?thesis by simp
next
  case (Cons seg segs')
  then show ?thesis by (cases seg; cases "tl seg") auto
qed

lemma accepts_Star_iff:
  "accepts (Cls P Star cap # p) n segs r \<longleftrightarrow>
     (\<exists>seg segs'. segs = seg # segs' \<and> list_all P seg \<and> accepts p (n + length seg) segs' r)"
  by (cases segs) auto

lemma accepts_Plus_iff:
  "accepts (Cls P Plus cap # p) n segs r \<longleftrightarrow>
     (\<exists>seg segs'. segs = seg # segs' \<and> seg \<noteq> [] \<and> list_all P seg
        \<and> accepts p (n + length seg) segs' r)"
  by (cases segs) auto

lemmas accepts_iff = accepts_Nil_iff accepts_Bol_iff accepts_Eol_iff accepts_Once_iff
  accepts_Star_iff accepts_Plus_iff

lemma numbered_shape:
  assumes "re_match (numbered_line U) s = Some gs"
  shows "\<exists>lead ds sep ws body tail. list_all is_space lead \<and> ds \<noteq> [] \<and> list_all (is_digit U) ds
      \<and> dot_or_rparen sep \<and> ws \<noteq> [] \<and> list_all is_space ws \<and> list_all not_newline body
      \<and> (tail = [] \<or> tail = [10])
      \<and> s = lead @ ds @ [sep] @ ws @ body @ [63] @ tail \<and> gs = [ds, body]"
proof -
  from assms obtain m where m: "rmatch (numbered_line U) 0 s = Some m" "gs = fst m"
    by (auto simp: re_match_def)
  from rmatch_sound[OF m(1)] obtain segs where
    a: "accepts (numbered_line U) 0 segs (snd m)" and c: "concat segs @ snd m = s"
    and g: "fst m = groups (numbered_line U) segs"
    by blast
  from a obtain lead ds sep ws body q where
    segs: "segs = [[], lead, ds, [sep], ws, body, [q], []]"
    and f: "list_all is_space lead" "ds \<noteq> []" "list_all (is_digit U) ds" "dot_or_rparen sep"
      "ws \<noteq> []" "list_all is_space ws" "list_all not_newline body" "qmark q"
      "snd m = [] \<or> snd m = [10]"
    unfolding numbered_line_def accepts_iff by auto
  have "s = lead @ ds @ [sep] @ ws @ body @ [63] @ snd m"
    using c segs f(8) by (simp add: qmark_def)
  moreover have "gs = [ds, body]" using m(2) g segs by (simp add: numbered_line_def)
  ultimately show ?thesis using f by blast
qed

lemma bulleted_shape:
  assumes "re_match bulleted_line s = Some gs"
  shows "\<exists>b ws body tail. bullet_char b \<and> ws \<noteq> [] \<and> list_all is_space ws
      \<and> list_all not_newline body \<and> (tail = [] \<or> tail = [10])
      \<and> s = b # ws @ body @ [63] @ tail \<and> gs = [body]"
proof -
  from assms obtain m where m: "rmatch bulleted_line 0 s = Some m" "gs = fst m"
    by (auto simp: re_match_def)
  from rmatch_sound[OF m(1)] obtain segs where
    a: "accepts bulleted_line 0 segs (snd m)" and c: "concat segs @ snd m = s"
    and g: "fst m = groups bulleted_line segs"
    by blast
  from a obtain b ws body q where
    segs: "segs = [[], [b], ws, body, [q], []]"
    and f: "bullet_char b" "ws \<noteq> []" "list_all is_space ws" "list_all not_newline body"
      "qmark q" "snd m = [] \<or> snd m = [10]"
    unfolding bulleted_line_def accepts_iff by auto
  have "s = b # ws @ body @ [63] @ snd m" using c segs f(5) by (simp add: qmark_def)
  moreover have "gs = [body]" using m(2) g segs by (simp add: bulleted_line_def)
  ultimately show ?thesis using f by blast
qed

lemma strip_no_lead: "list_all is_space lead \<Longrightarrow> lead @ x # xs = strip line \<Longrightarrow> lead = []"
proof (rule ccontr)
  assume a: "list_all is_space lead" "lead @ x # xs = strip line" "lead \<noteq> []"
  then have "strip line \<noteq> []" by (metis append_is_Nil_conv list.distinct(1))
  then have "\<not> is_space (hd (strip line))" using strip_of_ends[of is_space line] by (simp add: strip_def)
  moreover have "hd (strip line) = hd lead" using a(2,3) by (metis hd_append2)
  ultimately show False using a(1,3) by (cases lead) auto
qed

lemma strip_no_tail: "xs @ [63] @ tail = strip line \<Longrightarrow> tail = [] \<or> tail = [10] \<Longrightarrow> tail = []"
proof (rule ccontr)
  assume a: "xs @ [63] @ tail = strip line" "tail = [] \<or> tail = [10]" "tail \<noteq> []"
  then have t: "tail = [10]" by simp
  then have "strip line \<noteq> []" using a(1) by (metis append_is_Nil_conv list.distinct(1))
  then have "\<not> is_space (last (strip line))" using strip_of_ends[of is_space line] by (simp add: strip_def)
  moreover have "last (strip line) = 10" using a(1) t by (metis append_assoc last_snoc)
  ultimately show False by (simp add: is_space_def)
qed

lemma set_strip: "set (strip s) \<subseteq> set s"
proof
  fix x
  assume "x \<in> set (strip s)"
  then have "x \<in> set (dropWhile is_space (rev (dropWhile is_space s)))"
    by (simp add: strip_def strip_of_def rstrip_of_def lstrip_of_def)
  then have "x \<in> set (rev (dropWhile is_space s))" by (rule set_dropWhileD)
  then have "x \<in> set (dropWhile is_space s)" by simp
  then show "x \<in> set s" by (rule set_dropWhileD)
qed

lemma splitlines_from_clean:
  "l \<in> set (splitlines_from line s) \<Longrightarrow> list_all (\<lambda>c. \<not> is_linebreak c) line \<Longrightarrow>
   list_all (\<lambda>c. \<not> is_linebreak c) l"
proof (induction line s rule: splitlines_from.induct)
  case (1 line)
  then show ?case by (cases "line = []") simp_all
next
  case (2 line c)
  then show ?case by (cases "is_linebreak c") simp_all
next
  case (3 line c d cs)
  show ?case
  proof (cases "c = 13 \<and> d = 10")
    case True
    then have "l = line \<or> l \<in> set (splitlines_from [] cs)" using 3(4) by simp
    then show ?thesis
    proof
      assume "l = line" then show ?thesis using 3(5) by simp
    next
      assume "l \<in> set (splitlines_from [] cs)"
      from 3(1)[OF True this] show ?thesis by simp
    qed
  next
    case F: False
    show ?thesis
    proof (cases "is_linebreak c")
      case True
      then have "l = line \<or> l \<in> set (splitlines_from [] (d # cs))" using 3(4) F by simp
      then show ?thesis
      proof
        assume "l = line" then show ?thesis using 3(5) by simp
      next
        assume "l \<in> set (splitlines_from [] (d # cs))"
        from 3(2)[OF F True this] show ?thesis by simp
      qed
    next
      case False
      then have m: "l \<in> set (splitlines_from (line @ [c]) (d # cs))" using 3(4) F by simp
      have "list_all (\<lambda>c. \<not> is_linebreak c) (line @ [c])" using 3(5) False by simp
      from 3(3)[OF F False m this] show ?thesis .
    qed
  qed
qed

lemma splitlines_clean: "l \<in> set (splitlines text) \<Longrightarrow> list_all (\<lambda>c. \<not> is_linebreak c) l"
  using splitlines_from_clean[of l "[]" "text"] by (simp add: splitlines_def)

lemma line_item_sound:
  assumes "line_item U line = Some q"
  shows "\<exists>body. (numbered_question U (strip line) body \<or> bulleted_question (strip line) body)
           \<and> q = strip body @ [63]"
proof (cases "re_match (numbered_line U) (strip line)")
  case (Some gs)
  from numbered_shape[OF Some] obtain lead ds sep ws body tail where
    f: "list_all is_space lead" "ds \<noteq> []" "list_all (is_digit U) ds" "dot_or_rparen sep"
       "ws \<noteq> []" "list_all is_space ws" "tail = [] \<or> tail = [10]"
       "strip line = lead @ ds @ [sep] @ ws @ body @ [63] @ tail" "gs = [ds, body]"
    by blast
  obtain d ds' where d: "ds = d # ds'" using f(2) by (cases ds) auto
  have l: "lead = []" using strip_no_lead[OF f(1), of d "ds' @ [sep] @ ws @ body @ [63] @ tail" line] f(8) d
    by simp
  have t: "tail = []"
    using strip_no_tail[of "lead @ ds @ [sep] @ ws @ body" tail line] f(7) f(8) by simp
  have "numbered_question U (strip line) body"
    unfolding numbered_question_def using f l t by auto
  moreover have "q = strip body @ [63]" using assms Some f(9) by (simp add: line_item_def)
  ultimately show ?thesis by blast
next
  case None
  then obtain gs where b: "re_match bulleted_line (strip line) = Some gs"
    using assms by (auto simp: line_item_def split: option.splits)
  from bulleted_shape[OF b] obtain c ws body tail where
    f: "bullet_char c" "ws \<noteq> []" "list_all is_space ws" "tail = [] \<or> tail = [10]"
       "strip line = c # ws @ body @ [63] @ tail" "gs = [body]"
    by blast
  have t: "tail = []" using strip_no_tail[of "c # ws @ body" tail line] f(4) f(5) by simp
  have "bulleted_question (strip line) body"
    unfolding bulleted_question_def using f t by auto
  moreover have "q = strip body @ [63]" using assms None b f(6) by (simp add: line_item_def)
  ultimately show ?thesis by blast
qed

lemma line_item_complete:
  assumes "10 \<notin> set line"
    and "numbered_question U (strip line) body \<or> bulleted_question (strip line) body"
  shows "\<exists>q. line_item U line = Some q"
proof -
  have nb: "list_all not_newline body"
  proof -
    have "set body \<subseteq> set (strip line)"
      using assms(2) by (auto simp: numbered_question_def bulleted_question_def)
    then show ?thesis using assms(1) set_strip[of line]
      by (auto simp: list_all_iff not_newline_def)
  qed
  have "(\<exists>gs. re_match (numbered_line U) (strip line) = Some gs)
      \<or> (\<exists>gs. re_match bulleted_line (strip line) = Some gs)"
    using assms(2)
  proof
    assume "numbered_question U (strip line) body"
    then obtain ds sep ws where
      f: "ds \<noteq> []" "list_all (is_digit U) ds" "dot_or_rparen sep" "ws \<noteq> []"
         "list_all is_space ws" "strip line = ds @ [sep] @ ws @ body @ [63]"
      by (auto simp: numbered_question_def)
    have "accepts (numbered_line U) 0 [[], [], ds, [sep], ws, body, [63], []] []"
      using f nb by (simp add: numbered_line_def qmark_def)
    from rmatch_complete[OF this] have "\<exists>m. rmatch (numbered_line U) 0 (strip line) = Some m"
      using f(6) by simp
    then show ?thesis by (auto simp: re_match_def)
  next
    assume "bulleted_question (strip line) body"
    then obtain b ws where
      f: "bullet_char b" "ws \<noteq> []" "list_all is_space ws" "strip line = b # ws @ body @ [63]"
      by (auto simp: bulleted_question_def)
    have "accepts bulleted_line 0 [[], [b], ws, body, [63], []] []"
      using f nb by (simp add: bulleted_line_def qmark_def)
    from rmatch_complete[OF this] have "\<exists>m. rmatch bulleted_line 0 (strip line) = Some m"
      using f(4) by simp
    then show ?thesis by (auto simp: re_match_def)
  qed
  then show ?thesis by (auto simp: line_item_eq split: option.splits)
qed

lemma question_lines:
  assumes "line \<in> set (splitlines text)"
  shows "((\<exists>q. line_item U line = Some q) \<longleftrightarrow>
           (\<exists>body. numbered_question U (strip line) body \<or> bulleted_question (strip line) body))
         \<and> (\<forall>q. line_item U line = Some q \<longrightarrow>
              (\<exists>body. (numbered_question U (strip line) body \<or> bulleted_question (strip line) body)
                 \<and> q = strip body @ [63]))"
proof -
  have "10 \<notin> set line" using splitlines_clean[OF assms] by (auto simp: list_all_iff is_linebreak_def)
  then show ?thesis using line_item_sound[of U line] line_item_complete[of line U] by blast
qed

lemmas parse_eval = ustr_def strip_def strip_of_def rstrip_of_def lstrip_of_def rstrip_def
  is_space_def endswith_def splitlines_def is_linebreak_def line_item_def re_match_def
  numbered_line_def bulleted_line_def number_marker_def is_digit_def digit_value_def
  ascii_ucd_def ascii_lower_def dot_or_rparen_def bullet_char_def not_newline_def qmark_def
  candidates_def slice_to_def tidy_def quote_char_def stop_char_def
  parse_numbered_questions_def Let_def List.map_filter_simps squeeze_ws_def ws_plus_def

lemma sample_answer_parsed:
  "parse_numbered_questions ascii_ucd sample_answer 15 =
     [ustr ''What is it?'', ustr ''why\"?'', ustr ''How so.?'']"
  by (simp add: parse_eval sample_answer_def)

text \<open>
  Claim C2, as the code has it.  For every text and every bound \<open>N \<ge> 0\<close>,
  \<open>parse_numbered_questions(text, N)\<close> returns at most \<open>N\<close> entries, each ending in a
  question mark, no two of them equal once lowered.  Every entry is the tidied form of a
  candidate.  The candidates are what the lines that are numbered (\<open>1.\<close> or \<open>1)\<close>) or
  bulleted (\<open>-\<close>, \<open>*\<close>, U+2022) and end in a question mark give, when there is such a
  line; when there is none, they are the stripped parts of the whole text between number
  markers that end in a question mark.  A line gives a candidate exactly when, stripped,
  it is a numbered or a bulleted question, and the candidate is then the stripped body of
  such a reading followed by a question mark.
\<close>

theorem parse_numbered_questions_correct:
  "(0 \<le> N \<longrightarrow> int (length (parse_numbered_questions U text N)) \<le> N)
   \<and> (\<forall>q \<in> set (parse_numbered_questions U text N). endswith q [63])
   \<and> distinct (map (lower U) (parse_numbered_questions U text N))
   \<and> (\<forall>q \<in> set (parse_numbered_questions U text N). \<exists>c \<in> set (candidates U text). q = tidy c)
   \<and> candidates U text =
       (if List.map_filter (line_item U) (splitlines text) = []
        then filter (\<lambda>c. endswith c [63]) (map strip (re_split (number_marker U) 0 [] text))
        else List.map_filter (line_item U) (splitlines text))
   \<and> (\<forall>line \<in> set (splitlines text).
        ((\<exists>q. line_item U line = Some q) \<longleftrightarrow>
           (\<exists>body. numbered_question U (strip line) body \<or> bulleted_question (strip line) body))
        \<and> (\<forall>q. line_item U line = Some q \<longrightarrow>
             (\<exists>body. (numbered_question U (strip line) body \<or> bulleted_question (strip line) body)
                \<and> q = strip body @ [63])))"
proof -
  let ?out = "slice_to N (candidates U text)"
  let ?res = "parse_numbered_questions U text N"
  have r: "?res = dedup U ?out [] {}" by (simp add: parse_numbered_questions_def)
  have a: "0 \<le> N \<longrightarrow> int (length ?res) \<le> N"
  proof
    assume n: "0 \<le> N"
    have "length ?res \<le> length ?out" using dedup_length[of U ?out "[]" "{}"] r by simp
    then show "int (length ?res) \<le> N" using slice_to_length[OF n, of "candidates U text"] by linarith
  qed
  have s: "set ?res \<subseteq> tidy ` set ?out" using dedup_set[of U ?out "[]" "{}"] r by simp
  have b: "\<forall>q \<in> set ?res. endswith q [63]" using s tidy_qmark by auto
  have c: "distinct (map (lower U) ?res)" using dedup_distinct[of "{}" U "[]" ?out] r by simp
  have d: "\<forall>q \<in> set ?res. \<exists>c \<in> set (candidates U text). q = tidy c"
    using s slice_to_set[of N "candidates U text"] by blast
  have e: "\<forall>line \<in> set (splitlines text).
        ((\<exists>q. line_item U line = Some q) \<longleftrightarrow>
           (\<exists>body. numbered_question U (strip line) body \<or> bulleted_question (strip line) body))
        \<and> (\<forall>q. line_item U line = Some q \<longrightarrow>
             (\<exists>body. (numbered_question U (strip line) body \<or> bulleted_question (strip line) body)
                \<and> q = strip body @ [63]))"
    using question_lines[of _ "text" U] by blast
  have f: "candidates U text =
       (if List.map_filter (line_item U) (splitlines text) = []
        then filter (\<lambda>c. endswith c [63]) (map strip (re_split (number_marker U) 0 [] text))
        else List.map_filter (line_item U) (splitlines text))"
    by (rule candidates_eq)
  from a b c d f e show ?thesis by (intro conjI)
qed

theorem parse_numbered_questions_correct_witness:
  "(0::int) \<le> 15
   \<and> int (length (parse_numbered_questions ascii_ucd sample_answer 15)) \<le> 15
   \<and> list_all (\<lambda>q. endswith q [63]) (parse_numbered_questions ascii_ucd sample_answer 15)
   \<and> distinct (map (lower ascii_ucd) (parse_numbered_questions ascii_ucd sample_answer 15))
   \<and> parse_numbered_questions ascii_ucd sample_answer 15 =
       [ustr ''What is it?'', ustr ''why\"?'', ustr ''How so.?'']"
proof -
  have h: "(0::int) \<le> 15" by simp
  have "int (length (parse_numbered_questions ascii_ucd sample_answer 15)) \<le> 15
      \<and> (\<forall>q \<in> set (parse_numbered_questions ascii_ucd sample_answer 15). endswith q [63])
      \<and> distinct (map (lower ascii_ucd) (parse_numbered_questions ascii_ucd sample_answer 15))"
    using parse_numbered_questions_correct[of 15 ascii_ucd sample_answer] h by blast
  then show ?thesis using sample_answer_parsed by (simp add: list_all_iff)
qed

text \<open>
  The claim as the specification words it fails twice.  The text \<open>Why?\<close> has no numbered
  and no bulleted line, and its one entry is returned all the same; and with the bound
  \<open>-1\<close> the slice \<open>out[:-1]\<close> keeps all candidates but the last, so more than \<open>N\<close> entries
  are returned.
\<close>

theorem parse_numbered_questions_counterexample:
  "parse_numbered_questions ascii_ucd (ustr ''Why?'') 15 = [ustr ''Why?'']
   \<and> List.map_filter (line_item ascii_ucd) (splitlines (ustr ''Why?'')) = []
   \<and> parse_numbered_questions ascii_ucd (ustr ''1. A?\<newline>2. B?'') (- 1) = [ustr ''A?'']
   \<and> \<not> int (length (parse_numbered_questions ascii_ucd (ustr ''1. A?\<newline>2. B?'') (- 1))) \<le> - 1"
  by (simp add: parse_eval)

section \<open>Versions and the updater\<close>

lemma rmatch_digits:
  "rmatch (digits U) n (c # cs) =
     (if is_digit U c then Some ([], dropWhile (is_digit U) cs) else None)"
  by (simp add: digits_def rmatch_star_only)

lemma take_run: "take (Suc (length cs) - length (dropWhile P cs)) (c # cs) = c # takeWhile P cs"
proof -
  have "length (takeWhile P cs) + length (dropWhile P cs) = length cs"
    by (metis length_append takeWhile_dropWhile_id)
  then have "Suc (length cs) - length (dropWhile P cs) = Suc (length (takeWhile P cs))"
    by arith
  moreover have "take (length (takeWhile P cs)) cs = takeWhile P cs"
    by (metis takeWhile_eq_take)
  ultimately show ?thesis by simp
qed

lemma re_findall_digits_Cons:
  "re_findall (digits U) n (c # cs) =
     (if is_digit U c
      then (c # takeWhile (is_digit U) cs)
           # re_findall (digits U) (n + (Suc (length cs) - length (dropWhile (is_digit U) cs)))
               (dropWhile (is_digit U) cs)
      else re_findall (digits U) (Suc n) cs)"
  by (simp add: rmatch_digits take_run drop_run length_dropWhile_le)

lemma findall_runs: "re_findall (digits U) n s = digit_runs U s"
proof (induction U s arbitrary: n rule: digit_runs.induct)
  case (1 U)
  then show ?case by simp
next
  case (2 U c cs)
  then show ?case by (simp add: re_findall_digits_Cons del: re_findall.simps)
qed

lemma digit_runs_digits:
  "x \<in> set (digit_runs U s) \<Longrightarrow> x \<noteq> [] \<and> (\<forall>c \<in> set x. digit_value U c \<noteq> None)"
proof (induction U s rule: digit_runs.induct)
  case (1 U)
  then show ?case by simp
next
  case (2 U c cs)
  show ?case
  proof (cases "is_digit U c")
    case True
    then have "x = c # takeWhile (is_digit U) cs \<or> x \<in> set (digit_runs U (dropWhile (is_digit U) cs))"
      using 2(3) by simp
    then show ?thesis
    proof
      assume "x = c # takeWhile (is_digit U) cs"
      then show ?thesis using True by (auto simp: is_digit_def dest: set_takeWhileD)
    next
      assume "x \<in> set (digit_runs U (dropWhile (is_digit U) cs))"
      then show ?thesis using 2(1)[OF True] by blast
    qed
  next
    case False
    then have "x \<in> set (digit_runs U cs)" using 2(3) by simp
    then show ?thesis using 2(2)[OF False] by blast
  qed
qed

lemma findall_digits:
  "x \<in> set (re_findall (digits U) n s) \<Longrightarrow> x \<noteq> [] \<and> (\<forall>c \<in> set x. digit_value U c \<noteq> None)"
  using digit_runs_digits[of x U s] by (simp add: findall_runs)

lemma nums_of_eq:
  "nums_of U xs =
     (case find (\<lambda>x. int_max_str_digits < length x) xs of
        Some x \<Rightarrow> Inl (int_error U (length x))
      | None \<Rightarrow> Inr (map (decimal_value U) xs))"
  by (induction xs) (simp_all add: py_int_def split: option.splits)

lemma zero_runs: "digit_runs U (ustr ''0'') = [ustr ''0'']"
  by (simp add: ustr_def is_digit_def digit_value_def)

lemma version_tuple_eq:
  "version_tuple U v =
     (case find (\<lambda>x. int_max_str_digits < length x) (digit_runs U v) of
        Some x \<Rightarrow> Inl (int_error U (length x))
      | None \<Rightarrow> Inr (if integers_appearing_in U v = [] then [0] else integers_appearing_in U v))"
proof (cases "v = []")
  case True
  have "nums_of U [ustr ''0''] = Inr [0]"
    by (simp add: py_int_def int_max_str_digits_def decimal_value_def ustr_def digit_value_def)
  then have "version_tuple U v = Inr [0]"
    using True by (simp add: version_tuple_def findall_runs zero_runs)
  then show ?thesis using True by (simp add: integers_appearing_in_def)
next
  case False
  then show ?thesis
    by (simp add: version_tuple_def findall_runs nums_of_eq integers_appearing_in_def
        split: option.splits)
qed

lemma digit_runs_replicate:
  assumes "is_digit U d" and "0 < n"
  shows "digit_runs U (replicate n d) = [replicate n d]"
proof -
  obtain k where n: "n = Suc k" using assms(2) by (cases n) auto
  have "takeWhile (is_digit U) (replicate k d) = replicate k d"
    and "dropWhile (is_digit U) (replicate k d) = []"
    using assms(1) by simp_all
  then show ?thesis using assms(1) by (simp add: n)
qed

lemma version_too_long:
  assumes "is_digit U d" and "int_max_str_digits < n"
  shows "version_tuple U (replicate n d) = Inl (int_error U n)"
proof -
  have "0 < n" using assms(2) by simp
  then have "digit_runs U (replicate n d) = [replicate n d]"
    using assms(1) by (rule digit_runs_replicate[rotated])
  then show ?thesis using assms(2) by (simp add: version_tuple_eq)
qed

lemma tuple_le_not_gt: "tuple_le a b \<longleftrightarrow> \<not> tuple_gt a b"
  by (induction a b rule: tuple_le.induct) auto

lemma tuple_gt_lt: "tuple_gt a b \<longleftrightarrow> tuple_lt b a"
  by (induction a b rule: tuple_gt.induct) auto

lemma tuple_lt_irrefl: "\<not> tuple_lt a a"
  by (induction a) auto

lemma tuple_lt_trans: "tuple_lt a b \<Longrightarrow> tuple_lt b c \<Longrightarrow> tuple_lt a c"
proof (induction a b arbitrary: c rule: tuple_lt.induct)
  case 1 then show ?case by simp
next
  case (2 y ys) then show ?case by (cases c) auto
next
  case (3 x xs) then show ?case by simp
next
  case (4 x xs y ys)
  then show ?case by (cases c) (auto split: if_splits)
qed

lemma tuple_lt_total: "tuple_lt a b \<or> a = b \<or> tuple_lt b a"
  by (induction a b rule: tuple_lt.induct) auto

lemmas version_eval = version_tuple_eq integers_appearing_in_def ustr_def is_digit_def
  digit_value_def decimal_value_def int_max_str_digits_def

lemma v023: "version_tuple U (ustr ''0.23'') = Inr [0, 23]"
  by (simp add: version_eval)
lemma v10: "version_tuple U (ustr ''1.0'') = Inr [1, 0]"
  by (simp add: version_eval)
lemma vapp: "version_tuple U APP_VERSION = Inr [0, 23]"
  by (simp add: version_eval APP_VERSION_def)
lemma vlong: "version_tuple U (replicate 4301 49) = Inl (int_error U 4301)"
  by (rule version_too_long) (simp_all add: is_digit_def digit_value_def int_max_str_digits_def)

lemma new_events_emit [simp]: "new_events st (emit es st) = es"
  by (simp add: new_events_def emit_def)

lemma new_events_emit_flag [simp]: "new_events st (emit es (st\<lparr>UPDATE_IN_PROGRESS := b\<rparr>)) = es"
  by (simp add: new_events_def emit_def)

lemma background_check_offer:
  "Update_available m \<in> set (background_check U f)
     \<longrightarrow> f = Inr m
         \<and> (\<exists>l r. version_tuple U (latest_of m) = Inr l \<and> version_tuple U APP_VERSION = Inr r
               \<and> tuple_gt l r)"
  by (auto simp: background_check_def split: if_splits sum.splits)

lemma check_for_updates_offer:
  "(\<exists>l n. Update_dialog l n \<in> set (new_events st (snd (check_for_updates U E pane st))))
     \<longrightarrow> (\<exists>m l r. fetch_manifest E = Inr m \<and> version_tuple U (latest_of m) = Inr l
            \<and> version_tuple U APP_VERSION = Inr r \<and> tuple_gt l r)"
  by (auto simp: check_for_updates_def except_handler_def tuple_le_not_gt
      split: if_splits sum.splits option.splits)

text \<open>
  Claim C3, as the code has it.  \<open>version_tuple\<close> maps a string to the integers
  appearing in it, to \<open>(0,)\<close> when no digit appears, and raises when one of the runs of
  digits is longer than \<open>int()\<close> accepts.  Nothing but the digits counts: the running
  version \<open>0.23 BETA\<close> has the tuple of \<open>0.23\<close>.  Tuples are compared as Python compares
  them, which is a strict total order, and \<open>version_tuple("0.23") <
  version_tuple("1.0")\<close>.  The background checker emits \<open>update_available\<close>, and
  \<open>check_for_updates\<close> shows the update dialog, only when the manifest was fetched and the
  tuple of its version is strictly greater than the tuple of \<open>APP_VERSION\<close>.  When it is
  not greater, the background checker emits \<open>check_completed(False)\<close> alone, and
  \<open>check_for_updates\<close> (called while no update is in progress) returns \<open>False\<close> after the
  message \<open>You're on the latest version\<close>, which it leaves out when \<open>show_updater_pane\<close> is
  set.  When \<open>version_tuple\<close> raises on the version of the manifest, the background
  checker emits \<open>check_completed(False)\<close> alone, and \<open>check_for_updates\<close> shows the text
  of the exception in an error box, clears the flag and returns \<open>False\<close>.
\<close>

theorem version_check_correct:
  "version_tuple U v =
     (case find (\<lambda>x. int_max_str_digits < length x) (digit_runs U v) of
        Some x \<Rightarrow> Inl (int_error U (length x))
      | None \<Rightarrow> Inr (if integers_appearing_in U v = [] then [0] else integers_appearing_in U v))
   \<and> integers_appearing_in U v = map (decimal_value U) (digit_runs U v)
   \<and> version_tuple U (ustr ''0.23'') = Inr [0, 23] \<and> version_tuple U (ustr ''1.0'') = Inr [1, 0]
   \<and> tuple_lt [0, 23] [1, 0]
   \<and> version_tuple U APP_VERSION = version_tuple U (ustr ''0.23'')
   \<and> (tuple_gt a b \<longleftrightarrow> tuple_lt b a) \<and> (tuple_le a b \<longleftrightarrow> \<not> tuple_gt a b)
   \<and> \<not> tuple_lt a a \<and> (tuple_lt a b \<or> a = b \<or> tuple_lt b a)
   \<and> (tuple_lt a b \<and> tuple_lt b c \<longrightarrow> tuple_lt a c)
   \<and> (Update_available m1 \<in> set (background_check U f1)
        \<longrightarrow> f1 = Inr m1
            \<and> (\<exists>l r. version_tuple U (latest_of m1) = Inr l \<and> version_tuple U APP_VERSION = Inr r
                  \<and> tuple_gt l r))
   \<and> ((\<exists>l n. Update_dialog l n \<in> set (new_events st1 (snd (check_for_updates U E1 pane1 st1))))
        \<longrightarrow> (\<exists>m l r. fetch_manifest E1 = Inr m \<and> version_tuple U (latest_of m) = Inr l
               \<and> version_tuple U APP_VERSION = Inr r \<and> tuple_gt l r))
   \<and> (version_tuple U (latest_of m2) = Inr l2 \<and> version_tuple U APP_VERSION = Inr r2
        \<and> \<not> tuple_gt l2 r2
        \<longrightarrow> background_check U (Inr m2) = [Check_completed False])
   \<and> (fetch_manifest E2 = Inr m2 \<and> \<not> UPDATE_IN_PROGRESS st2
        \<and> version_tuple U (latest_of m2) = Inr l2 \<and> version_tuple U APP_VERSION = Inr r2
        \<and> \<not> tuple_gt l2 r2
        \<longrightarrow> check_for_updates U E2 pane2 st2 =
              (False, emit (Fetch # (if pane2 then []
                                     else [Information (ustr ''Updater'') latest_text])) st2))
   \<and> (version_tuple U (latest_of m3) = Inl e3
        \<longrightarrow> background_check U (Inr m3) = [Check_completed False])
   \<and> (fetch_manifest E3 = Inr m3 \<and> \<not> UPDATE_IN_PROGRESS st3
        \<and> version_tuple U (latest_of m3) = Inl e3
        \<longrightarrow> check_for_updates U E3 pane3 st3 =
              (False, emit [Fetch, Critical (ustr ''Updater'') e3]
                        (st3\<lparr>UPDATE_IN_PROGRESS := False\<rparr>)))"
proof -
  have p1: "tuple_lt [0, 23] [1, 0]" by simp
  have p2: "version_tuple U APP_VERSION = version_tuple U (ustr ''0.23'')"
    by (simp add: v023 vapp)
  have p4: "version_tuple U (latest_of m2) = Inr l2 \<and> version_tuple U APP_VERSION = Inr r2
        \<and> \<not> tuple_gt l2 r2
        \<longrightarrow> background_check U (Inr m2) = [Check_completed False]"
    by (simp add: background_check_def AUTO_UPDATE_ENABLED_def)
  have p5: "fetch_manifest E2 = Inr m2 \<and> \<not> UPDATE_IN_PROGRESS st2
        \<and> version_tuple U (latest_of m2) = Inr l2 \<and> version_tuple U APP_VERSION = Inr r2
        \<and> \<not> tuple_gt l2 r2
        \<longrightarrow> check_for_updates U E2 pane2 st2 =
              (False, emit (Fetch # (if pane2 then []
                                     else [Information (ustr ''Updater'') latest_text])) st2)"
    by (simp add: check_for_updates_def tuple_le_not_gt)
  have p6: "version_tuple U (latest_of m3) = Inl e3
        \<longrightarrow> background_check U (Inr m3) = [Check_completed False]"
    by (simp add: background_check_def AUTO_UPDATE_ENABLED_def)
  have p7: "fetch_manifest E3 = Inr m3 \<and> \<not> UPDATE_IN_PROGRESS st3
        \<and> version_tuple U (latest_of m3) = Inl e3
        \<longrightarrow> check_for_updates U E3 pane3 st3 =
              (False, emit [Fetch, Critical (ustr ''Updater'') e3]
                        (st3\<lparr>UPDATE_IN_PROGRESS := False\<rparr>))"
    by (simp add: check_for_updates_def except_handler_def)
  from version_tuple_eq[of U v] integers_appearing_in_def[of U v] v023[of U] v10[of U] p1 p2
    tuple_gt_lt[of a b] tuple_le_not_gt[of a b] tuple_lt_irrefl[of a] tuple_lt_total[of a b]
    tuple_lt_trans[of a b c] background_check_offer[of m1 U f1]
    check_for_updates_offer[of st1 U E1 pane1] p4 p5 p6 p7
  show ?thesis by (intro conjI impI) blast+
qed

lemmas upd_eval = check_for_updates_def except_handler_def background_check_def
  download_finished_def on_done_def on_err_def begin_update_replace_def emit_def new_events_def
  idle_def manifest_new_def manifest_same_def manifest_blank_sha_def manifest_no_sha_def
  manifest_long_def env_update_def env_same_def env_bad_digest_def env_blank_sha_def
  env_no_sha_def env_unreadable_def env_long_def latest_of_def AUTO_UPDATE_ENABLED_def
  vapp v10 v023 vlong ascii_ucd_def ascii_lower_def Let_def

theorem version_check_correct_witness:
  "Update_available manifest_new \<in> set (background_check ascii_ucd (Inr manifest_new))
   \<and> version_tuple ascii_ucd (latest_of manifest_new) = Inr [1, 0]
   \<and> version_tuple ascii_ucd APP_VERSION = Inr [0, 23]
   \<and> tuple_gt [1, 0] [0, 23]
   \<and> Update_dialog (ustr ''1.0'') None
        \<in> set (new_events idle (snd (check_for_updates ascii_ucd env_update False idle)))
   \<and> version_tuple ascii_ucd (latest_of manifest_same) = Inr [0, 23]
   \<and> \<not> tuple_gt [0, 23] [0, 23]
   \<and> background_check ascii_ucd (Inr manifest_same) = [Check_completed False]
   \<and> check_for_updates ascii_ucd env_same False idle =
        (False, emit [Fetch, Information (ustr ''Updater'') latest_text] idle)
   \<and> version_tuple ascii_ucd (latest_of manifest_long) = Inl (int_error ascii_ucd 4301)
   \<and> background_check ascii_ucd (Inr manifest_long) = [Check_completed False]
   \<and> check_for_updates ascii_ucd env_long False idle =
        (False, emit [Fetch, Critical (ustr ''Updater'') (int_error ascii_ucd 4301)]
                  (idle\<lparr>UPDATE_IN_PROGRESS := False\<rparr>))"
proof -
  have a: "Update_available manifest_new \<in> set (background_check ascii_ucd (Inr manifest_new))"
    by (simp add: upd_eval)
  have b: "Update_dialog (ustr ''1.0'') None
        \<in> set (new_events idle (snd (check_for_updates ascii_ucd env_update False idle)))"
    by (simp add: upd_eval)
  have v: "version_tuple ascii_ucd (latest_of manifest_new) = Inr [1, 0]"
      "version_tuple ascii_ucd APP_VERSION = Inr [0, 23]"
      "version_tuple ascii_ucd (latest_of manifest_same) = Inr [0, 23]"
      "version_tuple ascii_ucd (latest_of manifest_long) = Inl (int_error ascii_ucd 4301)"
    by (simp_all add: latest_of_def manifest_new_def manifest_same_def manifest_long_def
        v10 v023 vapp vlong)
  have c: "tuple_gt [1, 0] [0, 23]" "\<not> tuple_gt [0, 23] [0, 23]" by simp_all
  have d: "fetch_manifest env_same = Inr manifest_same" "\<not> UPDATE_IN_PROGRESS idle"
      "fetch_manifest env_long = Inr manifest_long"
    by (simp_all add: env_same_def env_long_def env_update_def idle_def)
  note t = version_check_correct[of ascii_ucd "[]" "[]" "[]" "[]" manifest_new
      "Inr manifest_new" idle env_update False manifest_same "[0, 23]" "[0, 23]" env_same idle
      False manifest_long "int_error ascii_ucd 4301" env_long idle False]
  have f: "background_check ascii_ucd (Inr manifest_same) = [Check_completed False]"
    using t v c by blast
  have "check_for_updates ascii_ucd env_same False idle =
      (False, emit (Fetch # (if False then []
                             else [Information (ustr ''Updater'') latest_text])) idle)"
    using t v c d by blast
  then have g: "check_for_updates ascii_ucd env_same False idle =
      (False, emit [Fetch, Information (ustr ''Updater'') latest_text] idle)"
    by simp
  have h: "background_check ascii_ucd (Inr manifest_long) = [Check_completed False]"
    using t v by blast
  have i: "check_for_updates ascii_ucd env_long False idle =
        (False, emit [Fetch, Critical (ustr ''Updater'') (int_error ascii_ucd 4301)]
                  (idle\<lparr>UPDATE_IN_PROGRESS := False\<rparr>))"
    using t v d by blast
  show ?thesis using a b v c f g h i by (intro conjI)
qed

lemma no_integers_in_beta:
  "version_tuple U (ustr ''beta'') = Inr [0] \<and> integers_appearing_in U (ustr ''beta'') = []"
  by (simp add: version_eval)

text \<open>
  The claim as the specification words it fails in four places.  \<open>version_tuple("beta")\<close>
  is \<open>(0,)\<close> although no integer appears in \<open>beta\<close>.  A version of 4301 digits has no
  tuple: \<open>int()\<close> raises, and \<open>check_for_updates\<close> ends in its error box, neither
  offering an update nor reporting that the version is the latest.  The release \<open>0.23\<close>
  is not ordered after the running \<open>0.23 BETA\<close>, whose tuple is the same, and is not
  offered.  And with \<open>show_updater_pane\<close> set, a manifest that is not newer makes
  \<open>check_for_updates\<close> return \<open>False\<close> after the fetch with no report at all.
\<close>

theorem version_check_counterexample:
  "version_tuple ascii_ucd (ustr ''beta'') = Inr [0]
   \<and> integers_appearing_in ascii_ucd (ustr ''beta'') = []
   \<and> version_tuple ascii_ucd (replicate 4301 49) = Inl (int_error ascii_ucd 4301)
   \<and> latest_of manifest_long = replicate 4301 49
   \<and> check_for_updates ascii_ucd env_long False idle =
        (False, emit [Fetch, Critical (ustr ''Updater'') (int_error ascii_ucd 4301)] idle)
   \<and> latest_of manifest_same = ustr ''0.23''
   \<and> version_tuple ascii_ucd (ustr ''0.23'') = version_tuple ascii_ucd APP_VERSION
   \<and> background_check ascii_ucd (Inr manifest_same) = [Check_completed False]
   \<and> check_for_updates ascii_ucd env_same True idle = (False, emit [Fetch] idle)"
  using no_integers_in_beta[of ascii_ucd] by (simp add: upd_eval)

lemma begin_update_replace_events:
  "\<exists>es. new_events st (begin_update_replace E path (emit xs st)) = xs @ Replace path # es"
  by (cases "replace_outcome E") (auto simp: begin_update_replace_def emit_def new_events_def)

lemma finalize_replaces:
  "Replace path \<in> set (new_events st (begin_update_replace E path (emit xs st)))"
  using begin_update_replace_events[of st E path xs] by auto

lemma begin_update_replace_digest:
  "begin_update_replace (E\<lparr>sha256_of_file := f\<rparr>) path st = begin_update_replace E path st"
  by (simp add: begin_update_replace_def)

text \<open>
  Claim C4, as the code has it.  When the manifest supplies a \<open>sha256\<close> field that is not
  the empty string, the digest of the downloaded file is computed and compared with it
  after \<open>lower()\<close> on both sides: on a mismatch the only effects are that the progress
  dialog closes and the error \<open>SHA-256 mismatch. Update aborted.\<close> is shown, and
  \<open>begin_update_replace\<close> is not called; it is called when the two agree, and only then.
  When the digest cannot be computed, the exception leaves the callback and nothing is
  replaced.  When the field is missing or is the empty string, no digest is computed or
  compared: whatever \<open>sha256_of_file\<close> would give, \<open>begin_update_replace\<close> is called after
  the message that the update was downloaded.
\<close>

theorem sha256_checked:
  assumes "fetch_manifest E = Inr m"
  shows "(m_sha256 m = Some s \<and> s \<noteq> [] \<and> sha256_of_file E path = Inr got
            \<and> lower U got \<noteq> lower U s \<longrightarrow>
            download_finished U E (Done path) st =
              emit [Progress_closed,
                    Critical (ustr ''Updater'') (ustr ''SHA-256 mismatch. Update aborted.'')] st
            \<and> (\<forall>p. Replace p \<notin> set (new_events st (download_finished U E (Done path) st))))
         \<and> (m_sha256 m = Some s \<and> s \<noteq> [] \<and> sha256_of_file E path = Inr got
            \<and> lower U got = lower U s \<longrightarrow>
            download_finished U E (Done path) st =
              begin_update_replace E path
                (emit [Progress_closed,
                       Information (ustr ''Updater'')
                         (ustr ''Update downloaded. The app will exit to finalize.'')] st)
            \<and> Replace path \<in> set (new_events st (download_finished U E (Done path) st)))
         \<and> (m_sha256 m = Some s \<and> s \<noteq> []
            \<and> (\<exists>p. Replace p \<in> set (new_events st (download_finished U E (Done path) st)))
            \<longrightarrow> (\<exists>g. sha256_of_file E path = Inr g \<and> lower U g = lower U s))
         \<and> (m_sha256 m = Some s \<and> s \<noteq> [] \<and> sha256_of_file E path = Inl e \<longrightarrow>
            download_finished U E (Done path) st = emit [Uncaught e] st)
         \<and> (m_sha256 m = None \<or> m_sha256 m = Some [] \<longrightarrow>
            download_finished U E (Done path) st =
              begin_update_replace E path
                (emit [Progress_closed,
                       Information (ustr ''Updater'')
                         (ustr ''Update downloaded. The app will exit to finalize.'')] st)
            \<and> Replace path \<in> set (new_events st (download_finished U E (Done path) st))
            \<and> download_finished U (E\<lparr>sha256_of_file := f\<rparr>) (Done path) st
                = download_finished U E (Done path) st)"
proof -
  let ?fin = "begin_update_replace E path
                (emit [Progress_closed,
                       Information (ustr ''Updater'')
                         (ustr ''Update downloaded. The app will exit to finalize.'')] st)"
  have d: "download_finished U E (Done path) st = on_done U E (m_sha256 m) path st"
    using assms by (simp add: download_finished_def)
  have r: "Replace path \<in> set (new_events st ?fin)" by (rule finalize_replaces)
  have a: "m_sha256 m = Some s \<and> s \<noteq> [] \<and> sha256_of_file E path = Inr got
            \<and> lower U got \<noteq> lower U s \<longrightarrow>
            download_finished U E (Done path) st =
              emit [Progress_closed,
                    Critical (ustr ''Updater'') (ustr ''SHA-256 mismatch. Update aborted.'')] st
            \<and> (\<forall>p. Replace p \<notin> set (new_events st (download_finished U E (Done path) st)))"
    by (simp add: d on_done_def)
  have b: "m_sha256 m = Some s \<and> s \<noteq> [] \<and> sha256_of_file E path = Inr got
            \<and> lower U got = lower U s \<longrightarrow>
            download_finished U E (Done path) st = ?fin
            \<and> Replace path \<in> set (new_events st (download_finished U E (Done path) st))"
    using r by (simp add: d on_done_def)
  have c: "m_sha256 m = Some s \<and> s \<noteq> []
            \<and> (\<exists>p. Replace p \<in> set (new_events st (download_finished U E (Done path) st)))
            \<longrightarrow> (\<exists>g. sha256_of_file E path = Inr g \<and> lower U g = lower U s)"
    by (cases "sha256_of_file E path") (auto simp: d on_done_def split: if_splits)
  have e: "m_sha256 m = Some s \<and> s \<noteq> [] \<and> sha256_of_file E path = Inl e \<longrightarrow>
            download_finished U E (Done path) st = emit [Uncaught e] st"
    by (simp add: d on_done_def)
  have g: "m_sha256 m = None \<or> m_sha256 m = Some [] \<longrightarrow>
            download_finished U E (Done path) st = ?fin
            \<and> Replace path \<in> set (new_events st (download_finished U E (Done path) st))
            \<and> download_finished U (E\<lparr>sha256_of_file := f\<rparr>) (Done path) st
                = download_finished U E (Done path) st"
    using r assms
    by (auto simp: d download_finished_def on_done_def begin_update_replace_digest)
  from a b c e g show ?thesis by (intro conjI)
qed

theorem sha256_checked_witness:
  "download_finished ascii_ucd env_bad_digest (Done (ustr ''upd.bin'')) idle =
     emit [Progress_closed,
           Critical (ustr ''Updater'') (ustr ''SHA-256 mismatch. Update aborted.'')] idle
   \<and> sha256_of_file env_bad_digest (ustr ''upd.bin'') = Inr (ustr ''ffff'')
   \<and> lower ascii_ucd (ustr ''ffff'') \<noteq> lower ascii_ucd (ustr ''AB12'')
   \<and> sha256_of_file env_update (ustr ''upd.bin'') = Inr (ustr ''ab12'')
   \<and> lower ascii_ucd (ustr ''ab12'') = lower ascii_ucd (ustr ''AB12'')
   \<and> Replace (ustr ''upd.bin'')
        \<in> set (new_events idle (download_finished ascii_ucd env_update (Done (ustr ''upd.bin'')) idle))
   \<and> sha256_of_file env_unreadable (ustr ''upd.bin'') = Inl (ustr ''Permission denied'')
   \<and> download_finished ascii_ucd env_unreadable (Done (ustr ''upd.bin'')) idle
       = emit [Uncaught (ustr ''Permission denied'')] idle
   \<and> m_sha256 manifest_no_sha = None
   \<and> Replace (ustr ''upd.bin'')
        \<in> set (new_events idle (download_finished ascii_ucd env_no_sha (Done (ustr ''upd.bin'')) idle))"
proof -
  have h: "fetch_manifest env_bad_digest = Inr manifest_new"
      "fetch_manifest env_update = Inr manifest_new"
      "fetch_manifest env_unreadable = Inr manifest_new"
      "fetch_manifest env_no_sha = Inr manifest_no_sha"
      "m_sha256 manifest_new = Some (ustr ''AB12'')" "ustr ''AB12'' \<noteq> []"
      "m_sha256 manifest_no_sha = None"
    by (simp_all add: env_bad_digest_def env_update_def env_unreadable_def env_no_sha_def
        manifest_new_def manifest_no_sha_def ustr_def)
  have s: "sha256_of_file env_bad_digest (ustr ''upd.bin'') = Inr (ustr ''ffff'')"
      "sha256_of_file env_update (ustr ''upd.bin'') = Inr (ustr ''ab12'')"
      "sha256_of_file env_unreadable (ustr ''upd.bin'') = Inl (ustr ''Permission denied'')"
    by (simp_all add: env_bad_digest_def env_update_def env_unreadable_def)
  have n: "lower ascii_ucd (ustr ''ffff'') \<noteq> lower ascii_ucd (ustr ''AB12'')"
      "lower ascii_ucd (ustr ''ab12'') = lower ascii_ucd (ustr ''AB12'')"
    by (simp_all add: ascii_ucd_def ascii_lower_def ustr_def)
  note t1 = sha256_checked[OF h(1), of "ustr ''AB12''" "ustr ''upd.bin''" "ustr ''ffff''"
      ascii_ucd idle]
  note t2 = sha256_checked[OF h(2), of "ustr ''AB12''" "ustr ''upd.bin''" "ustr ''ab12''"
      ascii_ucd idle]
  note t3 = sha256_checked[OF h(3), of "ustr ''AB12''" "ustr ''upd.bin''" _ ascii_ucd idle
      "ustr ''Permission denied''"]
  note t4 = sha256_checked[OF h(4), of _ "ustr ''upd.bin''" _ ascii_ucd idle]
  have a: "download_finished ascii_ucd env_bad_digest (Done (ustr ''upd.bin'')) idle =
     emit [Progress_closed,
           Critical (ustr ''Updater'') (ustr ''SHA-256 mismatch. Update aborted.'')] idle"
    using t1 h(5) h(6) s(1) n(1) by blast
  have b: "Replace (ustr ''upd.bin'')
        \<in> set (new_events idle (download_finished ascii_ucd env_update (Done (ustr ''upd.bin'')) idle))"
    using t2 h(5) h(6) s(2) n(2) by blast
  have c: "download_finished ascii_ucd env_unreadable (Done (ustr ''upd.bin'')) idle
       = emit [Uncaught (ustr ''Permission denied'')] idle"
    using t3 h(5) h(6) s(3) by blast
  have d: "Replace (ustr ''upd.bin'')
        \<in> set (new_events idle (download_finished ascii_ucd env_no_sha (Done (ustr ''upd.bin'')) idle))"
    using t4 h(7) by blast
  show ?thesis using a b c d s n h(7) by (intro conjI)
qed

text \<open>
  The guard is \<open>if sha:\<close>, so a manifest whose \<open>sha256\<close> field is the empty string is
  treated as one without the field: nothing is compared and \<open>begin_update_replace\<close> is
  called, whatever the digest of the file.
\<close>

theorem sha256_checked_counterexample:
  "fetch_manifest env_blank_sha = Inr manifest_blank_sha
   \<and> m_sha256 manifest_blank_sha = Some []
   \<and> sha256_of_file env_blank_sha (ustr ''upd.bin'') = Inr (ustr ''ffff'')
   \<and> lower ascii_ucd (ustr ''ffff'') \<noteq> lower ascii_ucd []
   \<and> new_events idle (download_finished ascii_ucd env_blank_sha (Done (ustr ''upd.bin'')) idle) =
       [Progress_closed,
        Information (ustr ''Updater'') (ustr ''Update downloaded. The app will exit to finalize.''),
        Replace (ustr ''upd.bin''), Exit]"
  by (simp add: upd_eval ustr_def)

text \<open>
  Claim C6 fails on the code.  The user accepts the update, so the flag is set; the
  download then fails (or its checksum does not match), and the flag is still set
  afterwards, because the callbacks assign a local variable.  The next call of
  \<open>check_for_updates\<close> returns \<open>False\<close> after the message that an update is in progress.
\<close>

theorem update_flag_stays_set:
  "fst (check_for_updates ascii_ucd env_update False idle)
   \<and> UPDATE_IN_PROGRESS (snd (check_for_updates ascii_ucd env_update False idle))
   \<and> UPDATE_IN_PROGRESS
       (download_finished ascii_ucd env_update (Err (ustr ''timed out''))
          (snd (check_for_updates ascii_ucd env_update False idle)))
   \<and> UPDATE_IN_PROGRESS
       (download_finished ascii_ucd env_bad_digest (Done (ustr ''upd.bin''))
          (snd (check_for_updates ascii_ucd env_bad_digest False idle)))
   \<and> check_for_updates ascii_ucd env_update False
       (download_finished ascii_ucd env_update (Err (ustr ''timed out''))
          (snd (check_for_updates ascii_ucd env_update False idle)))
     = (False,
        emit [Information (ustr ''Update'') already_text]
          (download_finished ascii_ucd env_update (Err (ustr ''timed out''))
             (snd (check_for_updates ascii_ucd env_update False idle))))"
  by (simp add: upd_eval)

section \<open>The conversion fallback\<close>

text \<open>
  Claim C5, as the code has it.  \<open>convert_docx_to_pdf\<close> is a fixed fallback over two
  converters: ReportLab first, and the docx2pdf library when ReportLab has failed; it
  returns as soon as one of them succeeds, and raises the user-facing \<open>RuntimeError\<close>
  exactly when both have failed.  It never runs Word's COM automation or LibreOffice.
  Those are run by \<open>convert_docx_to_pdf_with_method\<close> alone, when the method selected is
  theirs (debug mode); that function runs the one converter selected, with no fallback,
  and is \<open>convert_docx_to_pdf\<close> for the method \<open>auto\<close>.
\<close>

theorem convert_docx_to_pdf_fallback:
  "fst (convert_docx_to_pdf run) =
     (if run ReportLab = None then [ReportLab] else [ReportLab, Docx2pdf])
   \<and> (snd (convert_docx_to_pdf run) = Inr () \<longleftrightarrow> run ReportLab = None \<or> run Docx2pdf = None)
   \<and> ((\<exists>msg. snd (convert_docx_to_pdf run) = Inl msg) \<longleftrightarrow>
        run ReportLab \<noteq> None \<and> run Docx2pdf \<noteq> None)
   \<and> WordCom \<notin> set (fst (convert_docx_to_pdf run))
   \<and> LibreOffice \<notin> set (fst (convert_docx_to_pdf run))
   \<and> (method \<noteq> ustr ''auto'' \<longrightarrow> length (fst (convert_docx_to_pdf_with_method run method)) \<le> 1)
   \<and> (method \<noteq> ustr ''auto'' \<and> method_converter method = Some c \<longrightarrow>
        fst (convert_docx_to_pdf_with_method run method) = [c]
        \<and> (snd (convert_docx_to_pdf_with_method run method) = Inr () \<longleftrightarrow> run c = None))
   \<and> convert_docx_to_pdf_with_method run (ustr ''auto'') = convert_docx_to_pdf run"
  by (auto simp: convert_docx_to_pdf_def convert_docx_to_pdf_with_method_def
      split: option.splits)

theorem convert_docx_to_pdf_fallback_witness:
  "ustr ''libreoffice'' \<noteq> ustr ''auto''
   \<and> method_converter (ustr ''libreoffice'') = Some LibreOffice
   \<and> convert_docx_to_pdf_with_method office_only (ustr ''libreoffice'') = ([LibreOffice], Inr ())
   \<and> convert_docx_to_pdf docx2pdf_only = ([ReportLab, Docx2pdf], Inr ())"
proof -
  have a: "ustr ''libreoffice'' \<noteq> ustr ''auto''" by (simp add: ustr_def)
  have b: "method_converter (ustr ''libreoffice'') = Some LibreOffice"
    by (simp add: method_converter_def ustr_def)
  have c: "office_only LibreOffice = None" "docx2pdf_only ReportLab \<noteq> None" "docx2pdf_only Docx2pdf = None"
    by (simp_all add: office_only_def docx2pdf_only_def)
  note t1 = convert_docx_to_pdf_fallback[of office_only "ustr ''libreoffice''" LibreOffice]
  note t2 = convert_docx_to_pdf_fallback[of docx2pdf_only "ustr ''libreoffice''" LibreOffice]
  have "fst (convert_docx_to_pdf_with_method office_only (ustr ''libreoffice'')) = [LibreOffice]
      \<and> snd (convert_docx_to_pdf_with_method office_only (ustr ''libreoffice'')) = Inr ()"
    using t1 a b c by blast
  moreover have "fst (convert_docx_to_pdf docx2pdf_only) = [ReportLab, Docx2pdf]
      \<and> snd (convert_docx_to_pdf docx2pdf_only) = Inr ()"
    using t2 c by auto
  ultimately show ?thesis using a b by (simp add: prod_eq_iff)
qed

text \<open>
  On a machine where both libraries fail while Word and LibreOffice would convert the
  file, the conversion gives up after the second converter.
\<close>

theorem convert_docx_to_pdf_counterexample:
  "office_only WordCom = None \<and> office_only LibreOffice = None
   \<and> convert_docx_to_pdf office_only =
       ([ReportLab, Docx2pdf],
        Inl (both_failed_text (ustr ''ReportLab PDF generation failed: no font'')
               (ustr ''docx2pdf did not create PDF'')))"
  by (simp add: convert_docx_to_pdf_def office_only_def ustr_def)

section \<open>The preview and the rows\<close>

lemma show_exact_frame:
  "questions (show_exact png st) = questions st \<and> files (show_exact png st) = files st"
  by (simp add: show_exact_def split: option.splits)

lemma show_exact_loaded:
  "files st png = Some True \<Longrightarrow> preview_pixmap (show_exact png st) = Some png"
  by (simp add: show_exact_def)

lemma content_key_eq:
  "content_key H st = Some key \<longleftrightarrow>
     (\<exists>t l qs. utf8 (unit_title st) = Some t \<and> utf8 (level st) = Some l
        \<and> question_bytes (questions st) = Some qs \<and> key = H (t @ l @ qs))"
  by (auto simp: content_key_def split: option.splits)

lemma question_bytes_if:
  "question_bytes qs =
     (if list_all (\<lambda>q. utf8 q \<noteq> None) qs
      then Some (concat (map (\<lambda>q. 124 # the (utf8 q)) qs)) else None)"
  by (induction qs) (auto split: option.splits)

lemma question_bytes_eq:
  "question_bytes qs = Some bs \<longleftrightarrow>
     (list_all (\<lambda>q. utf8 q \<noteq> None) qs \<and> bs = concat (map (\<lambda>q. 124 # the (utf8 q)) qs))"
  by (auto simp: question_bytes_if)

lemma preview_done_stale:
  "content_key H st = Some key \<Longrightarrow> k \<noteq> key \<Longrightarrow>
   preview_done H wid k png st =
     discard_worker wid
       (if files st png \<noteq> None \<and> \<not> remove_refused st png
        then st\<lparr>files := (files st)(png := None)\<rparr> else st)"
  by (simp add: preview_done_def os_remove_def)

text \<open>
  Claim C8, as the code has it.  The current key is the SHA-1 digest of the UTF-8 bytes
  of the unit title, of the level and of every question after a bar, in this order, and
  the key a worker carries is the one that was current when it was started.  When a
  preview render finishes, its picture is shown only if the key it carries is the
  current key of that moment: the pixmap of the preview and the message boxes change
  only then.  A stale result, whose key differs from the current key, leaves the preview
  as it was; its PNG file is removed unless the system refuses the removal, and then the
  file stays and the refusal is passed over in silence; nothing else changes but the
  worker leaving the set.  A result with the current key is handed to \<open>show_exact\<close>,
  which shows the picture when the file loads.
\<close>

theorem stale_preview_discarded:
  "(content_key H st = Some key \<longleftrightarrow>
      (\<exists>t l qs. utf8 (unit_title st) = Some t \<and> utf8 (level st) = Some l
         \<and> question_bytes (questions st) = Some qs \<and> key = H (t @ l @ qs)))
   \<and> (question_bytes qs = Some bs \<longleftrightarrow>
        (list_all (\<lambda>q. utf8 q \<noteq> None) qs \<and> bs = concat (map (\<lambda>q. 124 # the (utf8 q)) qs)))
   \<and> (content_key H st0 = Some k0 \<longrightarrow>
        map w_key (workers (snd (start_exact_render H st0))) = [k0])
   \<and> (preview_pixmap (preview_done H wid k png st) \<noteq> preview_pixmap st
        \<longrightarrow> content_key H st = Some k)
   \<and> (boxes (preview_done H wid k png st) \<noteq> boxes st \<longrightarrow> content_key H st = Some k)
   \<and> (content_key H st = Some key \<and> k \<noteq> key \<longrightarrow>
        preview_done H wid k png st
          = discard_worker wid
              (if files st png \<noteq> None \<and> \<not> remove_refused st png
               then st\<lparr>files := (files st)(png := None)\<rparr> else st)
        \<and> preview_pixmap (preview_done H wid k png st) = preview_pixmap st
        \<and> preview_visible (preview_done H wid k png st) = preview_visible st
        \<and> preview_overlay (preview_done H wid k png st) = preview_overlay st
        \<and> boxes (preview_done H wid k png st) = boxes st
        \<and> (\<not> remove_refused st png \<longrightarrow> files (preview_done H wid k png st) png = None)
        \<and> (remove_refused st png \<longrightarrow> files (preview_done H wid k png st) = files st))
   \<and> (content_key H st = Some k \<longrightarrow>
        preview_done H wid k png st = discard_worker wid (show_exact png st)
        \<and> files (preview_done H wid k png st) = files st)
   \<and> (content_key H st = Some k \<and> files st png = Some True \<longrightarrow>
        preview_pixmap (preview_done H wid k png st) = Some png)"
proof -
  have a: "content_key H st0 = Some k0 \<longrightarrow>
        map w_key (workers (snd (start_exact_render H st0))) = [k0]"
    by (simp add: start_exact_render_def)
  have b: "preview_pixmap (preview_done H wid k png st) \<noteq> preview_pixmap st
        \<longrightarrow> content_key H st = Some k"
    by (auto simp: preview_done_def discard_worker_def os_remove_def split: option.splits if_splits)
  have c: "boxes (preview_done H wid k png st) \<noteq> boxes st \<longrightarrow> content_key H st = Some k"
    by (auto simp: preview_done_def discard_worker_def os_remove_def split: option.splits if_splits)
  have d: "content_key H st = Some key \<and> k \<noteq> key \<longrightarrow>
        preview_done H wid k png st
          = discard_worker wid
              (if files st png \<noteq> None \<and> \<not> remove_refused st png
               then st\<lparr>files := (files st)(png := None)\<rparr> else st)
        \<and> preview_pixmap (preview_done H wid k png st) = preview_pixmap st
        \<and> preview_visible (preview_done H wid k png st) = preview_visible st
        \<and> preview_overlay (preview_done H wid k png st) = preview_overlay st
        \<and> boxes (preview_done H wid k png st) = boxes st
        \<and> (\<not> remove_refused st png \<longrightarrow> files (preview_done H wid k png st) png = None)
        \<and> (remove_refused st png \<longrightarrow> files (preview_done H wid k png st) = files st)"
    by (auto simp: preview_done_stale discard_worker_def)
  have e: "content_key H st = Some k \<longrightarrow>
        preview_done H wid k png st = discard_worker wid (show_exact png st)
        \<and> files (preview_done H wid k png st) = files st"
    by (auto simp: preview_done_def discard_worker_def show_exact_def split: option.splits)
  have f: "content_key H st = Some k \<and> files st png = Some True \<longrightarrow>
        preview_pixmap (preview_done H wid k png st) = Some png"
    by (auto simp: preview_done_def discard_worker_def show_exact_def)
  from content_key_eq[of H st key] question_bytes_eq[of qs bs] a b c d e f
  show ?thesis by (intro conjI)
qed

lemmas key_eval = content_key_def small_app_def edited_app_def locked_app_def toy_sha1_def
  ustr_def utf8_char_def

lemma small_app_key:
  "content_key toy_sha1 small_app = Some (ustr ''FoodB1|What do you eat?|Why?|Where?'')"
  by (simp add: key_eval)

lemma edited_app_key:
  "content_key toy_sha1 edited_app = Some (ustr ''FoodB1|What do you eat?|Why not?|Where?'')"
  by (simp add: key_eval)

lemma locked_app_key:
  "content_key toy_sha1 locked_app = Some (ustr ''FoodB1|What do you eat?|Why not?|Where?'')"
  by (simp add: key_eval)

theorem stale_preview_discarded_witness:
  "content_key toy_sha1 small_app = Some (ustr ''FoodB1|What do you eat?|Why?|Where?'')
   \<and> map w_key (workers (snd (start_exact_render toy_sha1 small_app)))
       = [ustr ''FoodB1|What do you eat?|Why?|Where?'']
   \<and> content_key toy_sha1 edited_app = Some (ustr ''FoodB1|What do you eat?|Why not?|Where?'')
   \<and> ustr ''FoodB1|What do you eat?|Why?|Where?'' \<noteq> ustr ''FoodB1|What do you eat?|Why not?|Where?''
   \<and> files edited_app (ustr ''old.png'') = Some True
   \<and> \<not> remove_refused edited_app (ustr ''old.png'')
   \<and> preview_pixmap (preview_done toy_sha1 0 (ustr ''FoodB1|What do you eat?|Why?|Where?'')
        (ustr ''old.png'') edited_app) = None
   \<and> files (preview_done toy_sha1 0 (ustr ''FoodB1|What do you eat?|Why?|Where?'')
        (ustr ''old.png'') edited_app) (ustr ''old.png'') = None
   \<and> files edited_app (ustr ''new.png'') = Some True
   \<and> preview_pixmap (preview_done toy_sha1 0 (ustr ''FoodB1|What do you eat?|Why not?|Where?'')
        (ustr ''new.png'') edited_app) = Some (ustr ''new.png'')"
proof -
  let ?K1 = "ustr ''FoodB1|What do you eat?|Why?|Where?''"
  let ?K2 = "ustr ''FoodB1|What do you eat?|Why not?|Where?''"
  have ne: "?K1 \<noteq> ?K2" by (simp add: ustr_def)
  have f: "files edited_app (ustr ''old.png'') = Some True"
    "files edited_app (ustr ''new.png'') = Some True"
    "preview_pixmap edited_app = None" "\<not> remove_refused edited_app (ustr ''old.png'')"
    by (simp_all add: edited_app_def small_app_def)
  note t0 = stale_preview_discarded[of toy_sha1 small_app ?K1 "[]" "[]" small_app ?K1]
  note t1 = stale_preview_discarded[of toy_sha1 edited_app ?K2 "[]" "[]" small_app ?K1 0 ?K1
      "ustr ''old.png''"]
  note t2 = stale_preview_discarded[of toy_sha1 edited_app ?K2 "[]" "[]" small_app ?K1 0 ?K2
      "ustr ''new.png''"]
  have s: "map w_key (workers (snd (start_exact_render toy_sha1 small_app))) = [?K1]"
    using t0 small_app_key by blast
  have a: "preview_pixmap (preview_done toy_sha1 0 ?K1 (ustr ''old.png'') edited_app)
        = preview_pixmap edited_app
      \<and> files (preview_done toy_sha1 0 ?K1 (ustr ''old.png'') edited_app) (ustr ''old.png'') = None"
    using t1 edited_app_key ne f(4) by blast
  have b: "preview_pixmap (preview_done toy_sha1 0 ?K2 (ustr ''new.png'') edited_app)
        = Some (ustr ''new.png'')"
    using t2 edited_app_key f(2) by blast
  show ?thesis using s a b small_app_key edited_app_key ne f by simp
qed

text \<open>
  The claim as the specification words it fails where the system refuses the removal:
  the result is stale and is not shown, and its PNG file is still there afterwards,
  because \<open>on_done\<close> catches the exception of \<open>os.remove\<close> and drops it.
\<close>

theorem stale_preview_counterexample:
  "content_key toy_sha1 locked_app = Some (ustr ''FoodB1|What do you eat?|Why not?|Where?'')
   \<and> ustr ''FoodB1|What do you eat?|Why?|Where?'' \<noteq> ustr ''FoodB1|What do you eat?|Why not?|Where?''
   \<and> files locked_app (ustr ''old.png'') = Some True
   \<and> preview_pixmap (preview_done toy_sha1 0 (ustr ''FoodB1|What do you eat?|Why?|Where?'')
        (ustr ''old.png'') locked_app) = None
   \<and> files (preview_done toy_sha1 0 (ustr ''FoodB1|What do you eat?|Why?|Where?'')
        (ustr ''old.png'') locked_app) (ustr ''old.png'') = Some True"
  by (simp add: key_eval preview_done_def os_remove_def discard_worker_def)

lemma start_exact_render_questions: "questions (snd (start_exact_render H st)) = questions st"
  by (simp add: start_exact_render_def split: option.splits)

lemma apply_single_questions:
  "py_index (length (questions st)) idx = Some i \<Longrightarrow>
   questions (snd (apply_single H idx new_q st)) = (questions st)[i := new_q]"
  by (simp add: apply_single_def Let_def start_exact_render_questions split: option.splits)

lemma py_index_in_range:
  "- int n \<le> idx \<Longrightarrow> idx < int n \<Longrightarrow>
   py_index n idx = Some (if 0 \<le> idx then nat idx else nat (int n + idx))
   \<and> (if 0 \<le> idx then nat idx else nat (int n + idx)) < n"
  by (auto simp: py_index_def)

text \<open>
  Claim C9.  For every index within the range of the questions (from \<open>-len\<close> to
  \<open>len - 1\<close>, a negative index counting from the end as in Python),
  \<open>_apply_single(idx, new_q)\<close> puts \<open>new_q\<close> at that position of \<open>questions\<close> and changes
  nothing else of the list: its length and every other entry, at its own position, are
  as before.  The unit title and the level are untouched as well.
\<close>

theorem apply_single_frame:
  assumes "- int (length (questions st)) \<le> idx" and "idx < int (length (questions st))"
  shows "questions (snd (apply_single H idx new_q st))
           = (questions st)[(if 0 \<le> idx then nat idx else nat (int (length (questions st)) + idx)) := new_q]
         \<and> length (questions (snd (apply_single H idx new_q st))) = length (questions st)
         \<and> questions (snd (apply_single H idx new_q st))
             ! (if 0 \<le> idx then nat idx else nat (int (length (questions st)) + idx)) = new_q
         \<and> (\<forall>j < length (questions st).
               j \<noteq> (if 0 \<le> idx then nat idx else nat (int (length (questions st)) + idx))
               \<longrightarrow> questions (snd (apply_single H idx new_q st)) ! j = questions st ! j)
         \<and> unit_title (snd (apply_single H idx new_q st)) = unit_title st
         \<and> level (snd (apply_single H idx new_q st)) = level st"
proof -
  let ?i = "if 0 \<le> idx then nat idx else nat (int (length (questions st)) + idx)"
  have p: "py_index (length (questions st)) idx = Some ?i" and r: "?i < length (questions st)"
    using py_index_in_range[OF assms] by blast+
  have q: "questions (snd (apply_single H idx new_q st)) = (questions st)[?i := new_q]"
    using apply_single_questions[OF p] .
  have u: "unit_title (snd (apply_single H idx new_q st)) = unit_title st
      \<and> level (snd (apply_single H idx new_q st)) = level st"
    by (simp add: apply_single_def Let_def start_exact_render_def split: option.splits)
  show ?thesis using q r u by simp
qed

theorem apply_single_frame_witness:
  "- int (length (questions small_app)) \<le> - 1 \<and> (- 1 :: int) < int (length (questions small_app))
   \<and> questions (snd (apply_single toy_sha1 (- 1) (ustr ''When?'') small_app))
       = [ustr ''What do you eat?'', ustr ''Why?'', ustr ''When?'']
   \<and> questions (snd (apply_single toy_sha1 1 (ustr ''When?'') small_app))
       = [ustr ''What do you eat?'', ustr ''When?'', ustr ''Where?'']"
proof -
  have h: "- int (length (questions small_app)) \<le> - 1" "(- 1 :: int) < int (length (questions small_app))"
     "- int (length (questions small_app)) \<le> 1" "(1 :: int) < int (length (questions small_app))"
    by (simp_all add: small_app_def)
  have q: "questions small_app = [ustr ''What do you eat?'', ustr ''Why?'', ustr ''Where?'']"
    by (simp add: small_app_def)
  show ?thesis
    using apply_single_frame[OF h(1) h(2), of toy_sha1 "ustr ''When?''"]
      apply_single_frame[OF h(3) h(4), of toy_sha1 "ustr ''When?''"] h(1) h(2)
    by (simp add: q)
qed

section \<open>The marker of the template\<close>

lemma find_discussion_from_None:
  "find_discussion_from i doc = None \<longleftrightarrow> (\<forall>p \<in> set doc. strip (p_text p) \<noteq> ustr ''Discussion'')"
  by (induction doc arbitrary: i) auto

lemma find_discussion_None:
  "find_discussion doc = None \<longleftrightarrow> (\<forall>p \<in> set doc. strip (p_text p) \<noteq> ustr ''Discussion'')"
  by (simp add: find_discussion_def find_discussion_from_None)

lemma find_discussion_from_Some:
  "find_discussion_from i doc = Some k \<Longrightarrow>
   i \<le> k \<and> k - i < length doc \<and> strip (p_text (doc ! (k - i))) = ustr ''Discussion''
   \<and> (\<forall>j < k - i. strip (p_text (doc ! j)) \<noteq> ustr ''Discussion'')"
proof (induction doc arbitrary: i)
  case Nil
  then show ?case by simp
next
  case (Cons p ps)
  show ?case
  proof (cases "strip (p_text p) = ustr ''Discussion''")
    case True
    then show ?thesis using Cons.prems by simp
  next
    case False
    then have "find_discussion_from (Suc i) ps = Some k" using Cons.prems by simp
    from Cons.IH[OF this] have ih: "Suc i \<le> k" "k - Suc i < length ps"
        "strip (p_text (ps ! (k - Suc i))) = ustr ''Discussion''"
        "\<forall>j < k - Suc i. strip (p_text (ps ! j)) \<noteq> ustr ''Discussion''"
      by auto
    have e: "k - i = Suc (k - Suc i)" using ih(1) by simp
    show ?thesis using ih False unfolding e by (auto simp: less_Suc_eq_0_disj)
  qed
qed

lemma first_token_absent:
  "\<forall>tok \<in> set toks. \<not> contains txt tok \<Longrightarrow> first_token lvl toks txt = txt"
  by (induction toks) auto

lemma export_fill_absent:
  assumes "\<not> contains (p_text p) looking_back"
    and "\<forall>r \<in> set (p_runs p). \<forall>tok \<in> set LEVEL_TOKENS. \<not> contains r tok"
  shows "export_fill title lvl p = p"
proof -
  have "title_runs title p = p" using assms(1) by (simp add: title_runs_def)
  moreover have "map (first_token lvl LEVEL_TOKENS) (p_runs p) = p_runs p"
    using assms(2) by (simp add: first_token_absent map_idI)
  ultimately show ?thesis by (simp add: export_fill_def)
qed

lemma preview_run_no_marker:
  "worker_template PE = Template doc \<Longrightarrow> find_discussion doc = None \<Longrightarrow>
   preview_run PE w m =
     (case deps_error PE of
        Some e \<Rightarrow> [Sig_failed (ustr ''Preview deps missing: '' @ e)]
      | None \<Rightarrow> [Sig_failed no_discussion_text])"
  by (simp add: preview_run_def split: option.splits)

lemma export_docx_no_marker:
  "template XE = Template doc \<Longrightarrow>
   find_discussion (map (export_fill (unit_title st) (level st)) doc) = None \<Longrightarrow>
   export_docx XE st =
     (if strip (unit_title st) = []
      then ([Warning (ustr ''Unit Title Required'') title_required_text], None)
      else if save_path XE = [] then ([], None)
      else case docx_import_error XE of
        Some e \<Rightarrow>
          ([Critical (ustr ''Export Error'') (ustr ''python-docx not installed: '' @ e)], None)
      | None \<Rightarrow> ([Critical (ustr ''Export Error'') no_discussion_text], None))"
  by (auto simp: export_docx_def Let_def strip_Nil split: option.splits)

text \<open>
  Claim C7, as the code has it.  The search for the marker finds nothing exactly when no
  paragraph has the stripped text \<open>Discussion\<close>.  On a template without the marker the
  preview worker never emits \<open>done\<close>; it emits \<open>failed\<close> once, with the message
  \<open>Could not find "Discussion" in template.\<close> once its imports have succeeded, and with
  \<open>Preview deps missing\<close> when they have not.  On such a template \<open>export_docx\<close> saves no
  document, and its message box is that same message whenever the export has come as far
  as the template: with a blank unit title it ends in the warning \<open>Unit Title Required\<close>,
  with no path chosen it ends without a message, and when \<open>python-docx\<close> cannot be
  imported it ends in \<open>python-docx not installed\<close>.  For \<open>export_docx\<close> this is stated of
  the unit titles and levels that do not make a paragraph of the template read
  \<open>Discussion\<close> when they are put in; the others are outside the statement.
\<close>

theorem missing_discussion_fails:
  "(find_discussion doc = None \<longleftrightarrow> (\<forall>p \<in> set doc. strip (p_text p) \<noteq> ustr ''Discussion''))
   \<and> (worker_template PE = Template doc \<and> find_discussion doc = None \<longrightarrow>
        (\<forall>k f. Sig_done k f \<notin> set (preview_run PE w m))
        \<and> (deps_error PE = None \<longrightarrow> preview_run PE w m = [Sig_failed no_discussion_text])
        \<and> (\<forall>e. deps_error PE = Some e \<longrightarrow>
              preview_run PE w m = [Sig_failed (ustr ''Preview deps missing: '' @ e)]))
   \<and> (template XE = Template doc \<and> find_discussion doc = None
        \<and> find_discussion (map (export_fill (unit_title st) (level st)) doc) = None \<longrightarrow>
        snd (export_docx XE st) = None
        \<and> (strip (unit_title st) \<noteq> [] \<and> save_path XE \<noteq> [] \<and> docx_import_error XE = None \<longrightarrow>
             fst (export_docx XE st) = [Critical (ustr ''Export Error'') no_discussion_text])
        \<and> (strip (unit_title st) = [] \<longrightarrow>
             fst (export_docx XE st) = [Warning (ustr ''Unit Title Required'') title_required_text])
        \<and> (strip (unit_title st) \<noteq> [] \<and> save_path XE = [] \<longrightarrow> fst (export_docx XE st) = [])
        \<and> (\<forall>e. strip (unit_title st) \<noteq> [] \<and> save_path XE \<noteq> [] \<and> docx_import_error XE = Some e \<longrightarrow>
              fst (export_docx XE st)
                = [Critical (ustr ''Export Error'') (ustr ''python-docx not installed: '' @ e)]))"
proof -
  have a: "worker_template PE = Template doc \<and> find_discussion doc = None \<longrightarrow>
        (\<forall>k f. Sig_done k f \<notin> set (preview_run PE w m))
        \<and> (deps_error PE = None \<longrightarrow> preview_run PE w m = [Sig_failed no_discussion_text])
        \<and> (\<forall>e. deps_error PE = Some e \<longrightarrow>
              preview_run PE w m = [Sig_failed (ustr ''Preview deps missing: '' @ e)])"
    using preview_run_no_marker[of PE doc w m] by (auto split: option.splits)
  have b: "template XE = Template doc \<and> find_discussion doc = None
        \<and> find_discussion (map (export_fill (unit_title st) (level st)) doc) = None \<longrightarrow>
        snd (export_docx XE st) = None
        \<and> (strip (unit_title st) \<noteq> [] \<and> save_path XE \<noteq> [] \<and> docx_import_error XE = None \<longrightarrow>
             fst (export_docx XE st) = [Critical (ustr ''Export Error'') no_discussion_text])
        \<and> (strip (unit_title st) = [] \<longrightarrow>
             fst (export_docx XE st) = [Warning (ustr ''Unit Title Required'') title_required_text])
        \<and> (strip (unit_title st) \<noteq> [] \<and> save_path XE = [] \<longrightarrow> fst (export_docx XE st) = [])
        \<and> (\<forall>e. strip (unit_title st) \<noteq> [] \<and> save_path XE \<noteq> [] \<and> docx_import_error XE = Some e \<longrightarrow>
              fst (export_docx XE st)
                = [Critical (ustr ''Export Error'') (ustr ''python-docx not installed: '' @ e)])"
    using export_docx_no_marker[of XE doc st] by (auto split: option.splits)
  from find_discussion_None[of doc] a b show ?thesis by (intro conjI)
qed

lemmas doc_eval = template_no_marker_def template_marked_def export_of_def preview_of_def
  sample_worker_def discussion_app_def untitled_app_def small_app_def find_discussion_def
  p_text_def export_fill_def title_runs_def looking_back_def LEVEL_TOKENS_def Let_def
  strip_def strip_of_def rstrip_of_def lstrip_of_def is_space_def ustr_def

theorem missing_discussion_fails_witness:
  "worker_template (preview_of template_no_marker) = Template template_no_marker
   \<and> find_discussion template_no_marker = None
   \<and> deps_error (preview_of template_no_marker) = None
   \<and> preview_run (preview_of template_no_marker) sample_worker (ustr ''reportlab'')
       = [Sig_failed no_discussion_text]
   \<and> template (export_of template_no_marker) = Template template_no_marker
   \<and> find_discussion (map (export_fill (unit_title small_app) (level small_app)) template_no_marker) = None
   \<and> export_docx (export_of template_no_marker) small_app
       = ([Critical (ustr ''Export Error'') no_discussion_text], None)"
proof -
  have h1: "worker_template (preview_of template_no_marker) = Template template_no_marker"
      "deps_error (preview_of template_no_marker) = None"
      "template (export_of template_no_marker) = Template template_no_marker"
      "save_path (export_of template_no_marker) \<noteq> []"
      "docx_import_error (export_of template_no_marker) = None"
    by (simp_all add: preview_of_def export_of_def ustr_def)
  have h2: "find_discussion template_no_marker = None" by (simp add: doc_eval)
  have h3: "find_discussion (map (export_fill (unit_title small_app) (level small_app)) template_no_marker) = None"
    by (simp add: doc_eval)
  have h4: "strip (unit_title small_app) \<noteq> []" by (simp add: doc_eval)
  note t = missing_discussion_fails[of template_no_marker "preview_of template_no_marker"
      sample_worker "ustr ''reportlab''" "export_of template_no_marker" small_app]
  have p: "preview_run (preview_of template_no_marker) sample_worker (ustr ''reportlab'')
       = [Sig_failed no_discussion_text]"
    using t h1 h2 by blast
  have x: "snd (export_docx (export_of template_no_marker) small_app) = None
      \<and> fst (export_docx (export_of template_no_marker) small_app)
          = [Critical (ustr ''Export Error'') no_discussion_text]"
    using t h1 h2 h3 h4 by blast
  show ?thesis using h1 h2 h3 p x by (simp add: prod_eq_iff)
qed

text \<open>
  The claim as the specification words it fails at the first check of \<open>export_docx\<close>: the
  template below has no paragraph \<open>Discussion\<close>, and with a blank unit title the export
  ends in the warning that a unit title is required, not in the message of the marker.
\<close>

theorem missing_discussion_counterexample:
  "find_discussion template_no_marker = None
   \<and> template (export_of template_no_marker) = Template template_no_marker
   \<and> export_docx (export_of template_no_marker) untitled_app
       = ([Warning (ustr ''Unit Title Required'') title_required_text], None)
   \<and> fst (export_docx (export_of template_no_marker) untitled_app)
       \<noteq> [Critical (ustr ''Export Error'') no_discussion_text]"
  by (simp add: doc_eval export_docx_def)

text \<open>
  The two paths do not search the same document.  The preview worker looks for the marker
  in the template as it is on disk and puts the title in afterwards; \<open>export_docx\<close> puts
  the title in first.  With the unit title \<open>Discussion\<close> the placeholder of the template
  below becomes a marker: the export saves a document and the preview of the same inputs
  fails.
\<close>

lemma export_searches_after_filling:
  "find_discussion template_no_marker = None
   \<and> unit_title discussion_app = ustr ''Discussion''
   \<and> fst (export_docx (export_of template_no_marker) discussion_app)
       = [Information (ustr ''Export'') (ustr ''Saved:\<newline>out.docx'')]
   \<and> map_option fst (snd (export_docx (export_of template_no_marker) discussion_app))
       = Some (ustr ''out.docx'')
   \<and> preview_run (preview_of template_no_marker)
        (sample_worker\<lparr>w_unit_title := ustr ''Discussion''\<rparr>) (ustr ''reportlab'')
       = [Sig_failed no_discussion_text]"
  by (simp add: doc_eval export_docx_def preview_run_def)

end
